theory Spec2Isabelle
  imports Complex_Main "HOL-Library.AList"
begin

section \<open>Numbers\<close>

text \<open>
  Python floats are idealised as exact rationals: every finite double is a rational, and
  the model computes with it without rounding or overflow. The non-finite floats (nan,
  inf, -inf) appear only where the wage tables need them, in \<open>pynum\<close> below.
\<close>

datatype error = ValueError | KeyError | IndexError | JSONDecodeError | SourceError

text \<open>The built-in \<open>round(x)\<close> on an exact value: to the nearest integer, ties to even.\<close>

definition round_half_even :: "rat \<Rightarrow> int" where
  "round_half_even x =
     (let f = \<lfloor>x\<rfloor>; d = x - of_int f
      in if d < 1 / 2 then f else if 1 / 2 < d then f + 1 else if even f then f else f + 1)"

text \<open>\<open>round(x, 2)\<close>: the nearest multiple of 1/100, ties to the even hundredth.\<close>

definition py_round2 :: "rat \<Rightarrow> rat" where
  "py_round2 x = of_int (round_half_even (x * 100)) / 100"

text \<open>\<open>sum(xs)\<close>: a left fold from 0.\<close>

definition py_sum :: "rat list \<Rightarrow> rat" where
  "py_sum xs = foldl (+) 0 xs"

section \<open>calculate\_pdn\<close>

definition calculate_pdn :: "rat \<Rightarrow> rat list \<Rightarrow> error + rat" where
  "calculate_pdn monthly_income monthly_payments =
     (if monthly_income \<le> 0 then Inl ValueError
      else let total_payments = py_sum monthly_payments;
               pdn = (total_payments / monthly_income) * 100
           in Inr (py_round2 pdn))"

section \<open>Text\<close>

text \<open>
  A Python \<open>str\<close> is a sequence of Unicode code points, modelled as a list of naturals.
  The string methods the loader calls are modelled on code points: \<open>strip\<close> with
  Python's whitespace set, \<open>lower\<close> on Basic Latin, Latin-1 and the basic Cyrillic
  block (the alphabets of the tokens the loader searches for), \<open>in\<close> as contiguous
  occurrence, \<open>replace\<close> for a one-character pattern, and \<open>join\<close>.
\<close>

type_synonym ustr = "nat list"

definition py_isspace :: "nat \<Rightarrow> bool" where
  "py_isspace c \<longleftrightarrow>
     (9 \<le> c \<and> c \<le> 13) \<or> (28 \<le> c \<and> c \<le> 32) \<or> c = 133 \<or> c = 160 \<or> c = 5760
     \<or> (8192 \<le> c \<and> c \<le> 8202) \<or> c = 8232 \<or> c = 8233 \<or> c = 8239 \<or> c = 8287
     \<or> c = 12288"

definition py_strip :: "ustr \<Rightarrow> ustr" where
  "py_strip s = rev (dropWhile py_isspace (rev (dropWhile py_isspace s)))"

definition lower_cp :: "nat \<Rightarrow> nat" where
  "lower_cp c =
     (if (65 \<le> c \<and> c \<le> 90) \<or> (192 \<le> c \<and> c \<le> 222 \<and> c \<noteq> 215) \<or> (1040 \<le> c \<and> c \<le> 1071)
      then c + 32
      else if 1024 \<le> c \<and> c \<le> 1039 then c + 80
      else c)"

definition py_lower :: "ustr \<Rightarrow> ustr" where
  "py_lower s = map lower_cp s"

text \<open>\<open>sub in s\<close>: \<open>sub\<close> occurs in \<open>s\<close> as a contiguous run.\<close>

fun py_in :: "ustr \<Rightarrow> ustr \<Rightarrow> bool" where
  "py_in sub [] = (sub = [])"
| "py_in sub (c # cs) = (take (length sub) (c # cs) = sub \<or> py_in sub cs)"

definition replace_char :: "nat \<Rightarrow> ustr \<Rightarrow> ustr \<Rightarrow> ustr" where
  "replace_char old new s = concat (map (\<lambda>c. if c = old then new else [c]) s)"

fun py_join :: "ustr \<Rightarrow> ustr list \<Rightarrow> ustr" where
  "py_join sep [] = []"
| "py_join sep [x] = x"
| "py_join sep (x # y # ys) = x @ sep @ py_join sep (y # ys)"

section \<open>Numbers in tables\<close>

text \<open>
  A wage is a Python number: an int (the defaults are written as ints), a finite float
  (an exact rational here), or one of the non-finite floats. pandas marks a missing cell
  with the float nan.
\<close>

datatype pynum = PInt int | PFloat rat | PInf | NInf | NaN

definition is_digit :: "nat \<Rightarrow> bool" where
  "is_digit c \<longleftrightarrow> 48 \<le> c \<and> c \<le> 57"

definition nat_of_digits :: "ustr \<Rightarrow> nat" where
  "nat_of_digits ds = foldl (\<lambda>a d. 10 * a + (d - 48)) 0 ds"

definition pow10 :: "int \<Rightarrow> rat" where
  "pow10 k = (if 0 \<le> k then 10 ^ nat k else 1 / 10 ^ nat (- k))"

text \<open>
  \<open>float(s)\<close> on a string: surrounding whitespace is dropped; then an optional sign and
  either \<open>inf\<close>, \<open>infinity\<close> or \<open>nan\<close> in any letter case, or a decimal literal
  (digits, an optional point and digits, an optional exponent). \<open>None\<close> is the
  ValueError. Digit-group underscores and non-ASCII digits are not modelled.
\<close>

definition parse_exponent :: "ustr \<Rightarrow> int option" where
  "parse_exponent s =
     (case s of
        [] \<Rightarrow> Some 0
      | c # t \<Rightarrow>
          if c = 101 \<or> c = 69 then
            (let neg = (case t of [] \<Rightarrow> False | x # _ \<Rightarrow> x = 45);
                 ds = (case t of [] \<Rightarrow> [] | x # u \<Rightarrow> if x = 45 \<or> x = 43 then u else t)
             in if ds \<noteq> [] \<and> list_all is_digit ds
                then Some (if neg then - int (nat_of_digits ds) else int (nat_of_digits ds))
                else None)
          else None)"

definition parse_decimal :: "ustr \<Rightarrow> rat option" where
  "parse_decimal s =
     (let d1 = takeWhile is_digit s;
          r1 = dropWhile is_digit s;
          d2 = (case r1 of [] \<Rightarrow> [] | c # t \<Rightarrow> if c = 46 then takeWhile is_digit t else []);
          r2 = (case r1 of [] \<Rightarrow> [] | c # t \<Rightarrow> if c = 46 then dropWhile is_digit t else r1)
      in if d1 = [] \<and> d2 = [] then None
         else case parse_exponent r2 of
                None \<Rightarrow> None
              | Some e \<Rightarrow> Some (of_nat (nat_of_digits (d1 @ d2)) * pow10 (e - int (length d2))))"

definition py_float :: "ustr \<Rightarrow> pynum option" where
  "py_float s =
     (let t = py_strip s;
          neg = (case t of [] \<Rightarrow> False | c # _ \<Rightarrow> c = 45);
          body = (case t of [] \<Rightarrow> [] | c # u \<Rightarrow> if c = 45 \<or> c = 43 then u else t);
          low = py_lower body
      in if low = [105, 110, 102] \<or> low = [105, 110, 102, 105, 110, 105, 116, 121]
         then Some (if neg then NInf else PInf)
         else if low = [110, 97, 110] then Some NaN
         else map_option (\<lambda>r. PFloat (if neg then - r else r)) (parse_decimal body))"

text \<open>
  Printing. An int prints in decimal. A finite float prints as its exact decimal
  expansion, with at least one digit after the point (\<open>repr\<close> prints the shortest
  decimal that reads back as the same double; the exact model reads back the same
  rational, and keeps positional notation at every magnitude).
\<close>

function show_nat :: "nat \<Rightarrow> ustr" where
  "show_nat n = (if n < 10 then [48 + n] else show_nat (n div 10) @ [48 + n mod 10])"
  by pat_completeness auto
termination
  by (relation "measure id") auto

declare show_nat.simps [simp del]

definition show_int :: "int \<Rightarrow> ustr" where
  "show_int i = (if i < 0 then 45 # show_nat (nat (- i)) else show_nat (nat i))"

fun frac_digits :: "nat \<Rightarrow> rat \<Rightarrow> ustr" where
  "frac_digits 0 f = []"
| "frac_digits (Suc n) f =
     (if f = 0 then []
      else (let d = \<lfloor>f * 10\<rfloor> in (48 + nat d) # frac_digits n (f * 10 - of_int d)))"

definition float_repr :: "rat \<Rightarrow> ustr" where
  "float_repr r =
     (let a = \<bar>r\<bar>;
          n = \<lfloor>a\<rfloor>;
          ds = frac_digits (nat (snd (quotient_of a))) (a - of_int n)
      in (if r < 0 then [45] else []) @ show_nat (nat n) @ [46] @ (if ds = [] then [48] else ds))"

text \<open>\<open>str(x)\<close> of a number.\<close>

fun num_str :: "pynum \<Rightarrow> ustr" where
  "num_str (PInt i) = show_int i"
| "num_str (PFloat r) = float_repr r"
| "num_str PInf = [105, 110, 102]"
| "num_str NInf = [45, 105, 110, 102]"
| "num_str NaN = [110, 97, 110]"

text \<open>\<open>round(x, 2)\<close> of a number: nan and the infinities round to themselves, an int too.\<close>

fun num_round2 :: "pynum \<Rightarrow> pynum" where
  "num_round2 (PFloat r) = PFloat (py_round2 r)"
| "num_round2 v = v"

section \<open>The snapshot format\<close>

text \<open>
  The snapshot is a JSON text. \<open>json\<close> is the Python value that \<open>json.load\<close> builds:
  \<open>None\<close>, a bool, a number, a str, a list, or a dict. A dict keeps its keys in insertion
  order and holds each key once, so it is an association list maintained with
  \<open>AList.update\<close>: assigning to a present key replaces its value in place, assigning to
  a new key appends.
\<close>

datatype json =
    JNull
  | JBool bool
  | JNum pynum
  | JStr ustr
  | JArr "json list"
  | JObj "(ustr \<times> json) list"

type_synonym table = "(ustr \<times> pynum) list"

definition json_of_table :: "table \<Rightarrow> json" where
  "json_of_table t = JObj (map (\<lambda>(k, v). (k, JNum v)) t)"

text \<open>Truth value of a Python object, as \<open>if local:\<close> tests it.\<close>

fun truthy :: "json \<Rightarrow> bool" where
  "truthy JNull = False"
| "truthy (JBool b) = b"
| "truthy (JNum (PInt i)) = (i \<noteq> 0)"
| "truthy (JNum (PFloat r)) = (r \<noteq> 0)"
| "truthy (JNum _) = True"
| "truthy (JStr s) = (s \<noteq> [])"
| "truthy (JArr xs) = (xs \<noteq> [])"
| "truthy (JObj m) = (m \<noteq> [])"

subsection \<open>Writing: json.dump(data, f, ensure\_ascii=False, indent=2)\<close>

text \<open>
  With \<open>ensure_ascii=False\<close> a string is quoted with only the quote, the backslash and
  the control characters below U+0020 escaped; every other code point is written as it
  is. With \<open>indent=2\<close> each member stands on its own line behind two spaces, members
  are separated by a comma, key and value by a colon and a space; the empty dict is
  \<open>{}\<close>.
\<close>

definition hex_digit :: "nat \<Rightarrow> nat" where
  "hex_digit d = (if d < 10 then 48 + d else 87 + d)"

definition escape_char :: "nat \<Rightarrow> ustr" where
  "escape_char c =
     (if c = 34 then [92, 34]
      else if c = 92 then [92, 92]
      else if c = 10 then [92, 110]
      else if c = 13 then [92, 114]
      else if c = 9 then [92, 116]
      else if c = 8 then [92, 98]
      else if c = 12 then [92, 102]
      else if c < 32 then [92, 117, 48, 48, hex_digit (c div 16), hex_digit (c mod 16)]
      else [c])"

definition json_quote :: "ustr \<Rightarrow> ustr" where
  "json_quote s = 34 # concat (map escape_char s) @ [34]"

fun json_num :: "pynum \<Rightarrow> ustr" where
  "json_num (PInt i) = show_int i"
| "json_num (PFloat r) = float_repr r"
| "json_num NaN = [78, 97, 78]"
| "json_num PInf = [73, 110, 102, 105, 110, 105, 116, 121]"
| "json_num NInf = [45, 73, 110, 102, 105, 110, 105, 116, 121]"

definition json_member :: "ustr \<times> pynum \<Rightarrow> ustr" where
  "json_member kv = [32, 32] @ json_quote (fst kv) @ [58, 32] @ json_num (snd kv)"

definition json_dumps :: "table \<Rightarrow> ustr" where
  "json_dumps t =
     (if t = [] then [123, 125]
      else [123, 10] @ py_join [44, 10] (map json_member t) @ [10, 125])"

subsection \<open>Reading: json.load(f)\<close>

definition is_ws :: "nat \<Rightarrow> bool" where
  "is_ws c \<longleftrightarrow> c = 32 \<or> c = 9 \<or> c = 10 \<or> c = 13"

definition skip_ws :: "ustr \<Rightarrow> ustr" where
  "skip_ws s = dropWhile is_ws s"

definition hex_val :: "nat \<Rightarrow> nat option" where
  "hex_val c =
     (if 48 \<le> c \<and> c \<le> 57 then Some (c - 48)
      else if 97 \<le> c \<and> c \<le> 102 then Some (c - 87)
      else if 65 \<le> c \<and> c \<le> 70 then Some (c - 55)
      else None)"

definition hex4 :: "ustr \<Rightarrow> nat option" where
  "hex4 s =
     (case map hex_val s of
        [Some a, Some b, Some c, Some d] \<Rightarrow> Some (((a * 16 + b) * 16 + c) * 16 + d)
      | _ \<Rightarrow> None)"

text \<open>
  The string scanner, entered behind the opening quote; it returns the decoded string and
  the text behind the closing quote. A raw control character, an unknown escape, a bad
  \<open>\u\<close> escape and a missing closing quote are decode errors. A high surrogate escape
  followed by a low surrogate escape is one code point.
\<close>

function scanstring :: "ustr \<Rightarrow> ustr \<Rightarrow> error + (ustr \<times> ustr)" where
  "scanstring acc [] = Inl JSONDecodeError"
| "scanstring acc (c # cs) =
     (if c = 34 then Inr (acc, cs)
      else if c = 92 then
        (case cs of
           [] \<Rightarrow> Inl JSONDecodeError
         | e # t \<Rightarrow>
             if e = 117 then
               (case hex4 (take 4 t) of
                  None \<Rightarrow> Inl JSONDecodeError
                | Some u \<Rightarrow>
                    if 55296 \<le> u \<and> u \<le> 56319 \<and> take 2 (drop 4 t) = [92, 117] then
                      (case hex4 (take 4 (drop 6 t)) of
                         None \<Rightarrow> Inl JSONDecodeError
                       | Some u2 \<Rightarrow>
                           if 56320 \<le> u2 \<and> u2 \<le> 57343
                           then scanstring
                                  (acc @ [65536 + (u - 55296) * 1024 + (u2 - 56320)])
                                  (drop 10 t)
                           else scanstring (acc @ [u]) (drop 4 t))
                    else scanstring (acc @ [u]) (drop 4 t))
             else if e = 34 then scanstring (acc @ [34]) t
             else if e = 92 then scanstring (acc @ [92]) t
             else if e = 47 then scanstring (acc @ [47]) t
             else if e = 98 then scanstring (acc @ [8]) t
             else if e = 102 then scanstring (acc @ [12]) t
             else if e = 110 then scanstring (acc @ [10]) t
             else if e = 114 then scanstring (acc @ [13]) t
             else if e = 116 then scanstring (acc @ [9]) t
             else Inl JSONDecodeError)
      else if c < 32 then Inl JSONDecodeError
      else scanstring (acc @ [c]) cs)"
  by pat_completeness auto
termination
  by (relation "measure (\<lambda>(acc, s). length s)") auto

text \<open>
  The number pattern: an optional minus, an integer part (a single 0, or digits not
  starting with 0), an optional fraction, an optional exponent. Without fraction and
  exponent the text is an int, otherwise it is read by \<open>float\<close>.
\<close>

definition match_number :: "ustr \<Rightarrow> (pynum \<times> ustr) option" where
  "match_number s =
     (let neg = (case s of [] \<Rightarrow> False | c # _ \<Rightarrow> c = 45);
          s1 = (if neg then tl s else s);
          ip = (case s1 of [] \<Rightarrow> [] | c # _ \<Rightarrow> if c = 48 then [48] else takeWhile is_digit s1);
          r1 = drop (length ip) s1;
          fp = (case r1 of
                  [] \<Rightarrow> []
                | c # t \<Rightarrow> if c = 46 \<and> takeWhile is_digit t \<noteq> []
                           then 46 # takeWhile is_digit t else []);
          r2 = drop (length fp) r1;
          ep = (case r2 of
                  [] \<Rightarrow> []
                | c # t \<Rightarrow>
                    if c = 101 \<or> c = 69 then
                      (let sg = (case t of [] \<Rightarrow> [] | x # _ \<Rightarrow> if x = 45 \<or> x = 43 then [x] else []);
                           ds = takeWhile is_digit (drop (length sg) t)
                       in if ds = [] then [] else c # sg @ ds)
                    else []);
          r3 = drop (length ep) r2
      in if ip = [] then None
         else if fp = [] \<and> ep = []
         then Some (PInt (if neg then - int (nat_of_digits ip) else int (nat_of_digits ip)), r3)
         else map_option (\<lambda>v. (v, r3)) (py_float ((if neg then [45] else []) @ ip @ fp @ ep)))"

text \<open>
  The recursive-descent scanner. Its first argument bounds the number of nested calls,
  as the interpreter's recursion limit does; \<open>json_loads\<close> starts it with a bound that
  the length of the text cannot exhaust (\<open>json_loads_bound\<close> below). \<open>parse_items\<close> is
  entered where an array element must start, \<open>parse_members\<close> behind the opening quote
  of an object key.
\<close>

datatype scan_error = Decode_error | Depth_exceeded

fun parse_value :: "nat \<Rightarrow> ustr \<Rightarrow> scan_error + (json \<times> ustr)"
and parse_items :: "nat \<Rightarrow> json list \<Rightarrow> ustr \<Rightarrow> scan_error + (json \<times> ustr)"
and parse_members :: "nat \<Rightarrow> (ustr \<times> json) list \<Rightarrow> ustr \<Rightarrow> scan_error + (json \<times> ustr)"
where
  "parse_value 0 s = Inl Depth_exceeded"
| "parse_value (Suc n) s =
     (case s of
        [] \<Rightarrow> Inl Decode_error
      | c # t \<Rightarrow>
          if c = 34 then
            (case scanstring [] t of
               Inl e \<Rightarrow> Inl Decode_error
             | Inr (str, r) \<Rightarrow> Inr (JStr str, r))
          else if c = 123 then
            (case skip_ws t of
               [] \<Rightarrow> Inl Decode_error
             | d # u \<Rightarrow>
                 if d = 125 then Inr (JObj [], u)
                 else if d = 34 then parse_members n [] u
                 else Inl Decode_error)
          else if c = 91 then
            (case skip_ws t of
               [] \<Rightarrow> Inl Decode_error
             | d # u \<Rightarrow>
                 if d = 93 then Inr (JArr [], u)
                 else parse_items n [] (d # u))
          else if take 4 s = [110, 117, 108, 108] then Inr (JNull, drop 4 s)
          else if take 4 s = [116, 114, 117, 101] then Inr (JBool True, drop 4 s)
          else if take 5 s = [102, 97, 108, 115, 101] then Inr (JBool False, drop 5 s)
          else
            (case match_number s of
               Some (v, r) \<Rightarrow> Inr (JNum v, r)
             | None \<Rightarrow>
                 if take 3 s = [78, 97, 78] then Inr (JNum NaN, drop 3 s)
                 else if take 8 s = [73, 110, 102, 105, 110, 105, 116, 121]
                 then Inr (JNum PInf, drop 8 s)
                 else if take 9 s = [45, 73, 110, 102, 105, 110, 105, 116, 121]
                 then Inr (JNum NInf, drop 9 s)
                 else Inl Decode_error))"
| "parse_items 0 acc s = Inl Depth_exceeded"
| "parse_items (Suc n) acc s =
     (case parse_value n s of
        Inl e \<Rightarrow> Inl e
      | Inr (v, r) \<Rightarrow>
          (case skip_ws r of
             [] \<Rightarrow> Inl Decode_error
           | d # u \<Rightarrow>
               if d = 93 then Inr (JArr (acc @ [v]), u)
               else if d = 44 then parse_items n (acc @ [v]) (skip_ws u)
               else Inl Decode_error))"
| "parse_members 0 acc s = Inl Depth_exceeded"
| "parse_members (Suc n) acc s =
     (case scanstring [] s of
        Inl e \<Rightarrow> Inl Decode_error
      | Inr (key, r) \<Rightarrow>
          (case skip_ws r of
             [] \<Rightarrow> Inl Decode_error
           | d # u \<Rightarrow>
               if d \<noteq> 58 then Inl Decode_error
               else
                 (case parse_value n (skip_ws u) of
                    Inl e \<Rightarrow> Inl e
                  | Inr (v, r2) \<Rightarrow>
                      (case skip_ws r2 of
                         [] \<Rightarrow> Inl Decode_error
                       | x # w \<Rightarrow>
                           if x = 125 then Inr (JObj (AList.update key v acc), w)
                           else if x = 44 then
                             (case skip_ws w of
                                [] \<Rightarrow> Inl Decode_error
                              | q # z \<Rightarrow>
                                  if q = 34 then parse_members n (AList.update key v acc) z
                                  else Inl Decode_error)
                           else Inl Decode_error))))"

text \<open>
  \<open>json.loads\<close>: one value between optional whitespace, and nothing behind it. Every
  failure is the JSONDecodeError that \<open>json.load\<close> raises.
\<close>

definition json_loads :: "ustr \<Rightarrow> error + json" where
  "json_loads s =
     (case parse_value (Suc (Suc (length s + length s))) (skip_ws s) of
        Inl e \<Rightarrow> Inl JSONDecodeError
      | Inr (v, r) \<Rightarrow> if skip_ws r = [] then Inr v else Inl JSONDecodeError)"

section \<open>Tables read by pandas\<close>

text \<open>
  A DataFrame is its column labels (as \<open>str\<close> prints them; pandas keeps the labels of a
  parsed table pairwise distinct) and its rows of cells. A cell is a string or a number;
  a missing cell is the float nan. The loops read a cell only through \<open>str\<close> and
  \<open>pd.isna\<close>, so a cell of any other kind is the string that \<open>str\<close> gives for it.
  \<open>row[c]\<close> is the cell under the label \<open>c\<close>; \<open>None\<close> is the KeyError of a label the
  row does not have.
\<close>

datatype cell = CStr ustr | CNum pynum

record dataframe =
  columns :: "ustr list"
  rows :: "cell list list"

fun cell_str :: "cell \<Rightarrow> ustr" where
  "cell_str (CStr s) = s"
| "cell_str (CNum v) = num_str v"

fun isna :: "cell \<Rightarrow> bool" where
  "isna (CNum NaN) = True"
| "isna _ = False"

definition row_get :: "ustr list \<Rightarrow> cell list \<Rightarrow> ustr \<Rightarrow> cell option" where
  "row_get cols row c = map_of (zip cols row) c"

text \<open>
  The tokens searched for in headers and region names, in lower-case Cyrillic:
  region, subject (of the federation), the stems of salary and of earnings, July,
  district, and Russian (as in Russian Federation).
\<close>

definition tok_region :: ustr where
  "tok_region = [1088, 1077, 1075, 1080, 1086, 1085]"

definition tok_subject :: ustr where
  "tok_subject = [1089, 1091, 1073, 1098, 1077, 1082, 1090]"

definition tok_salary :: ustr where
  "tok_salary = [1079, 1072, 1088, 1087, 1083, 1072, 1090]"

definition tok_earnings :: ustr where
  "tok_earnings = [1079, 1072, 1088, 1072, 1073]"

definition tok_july :: ustr where
  "tok_july = [1080, 1102, 1083, 1100]"

definition tok_district :: ustr where
  "tok_district = [1086, 1082, 1088, 1091, 1075]"

definition tok_russian :: ustr where
  "tok_russian = [1088, 1086, 1089, 1089, 1080, 1081, 1089, 1082, 1072, 1103]"

section \<open>The snapshot store\<close>

text \<open>
  The files the loader touches: the spreadsheet (absent, unreadable, or a sheet as
  \<open>read_excel(header=1)\<close> delivers it), the snapshot (absent, or its content as
  decoded text; the UTF-8 layer below is not modelled, nor are failures of the file
  system), and the texts written to the snapshot so far, oldest first.
\<close>

datatype workbook = Unreadable | Sheet dataframe

record fs =
  excel :: "workbook option"
  snapshot :: "ustr option"
  writes :: "ustr list"

definition try_load_from_local :: "fs \<Rightarrow> error + json" where
  "try_load_from_local s =
     (case snapshot s of
        None \<Rightarrow> Inr JNull
      | Some text \<Rightarrow> json_loads text)"

definition save_local :: "table \<Rightarrow> fs \<Rightarrow> fs" where
  "save_local data s =
     s\<lparr>snapshot := Some (json_dumps data), writes := writes s @ [json_dumps data]\<rparr>"

section \<open>fetch\_from\_rosstat\_html\<close>

text \<open>
  The network answers a URL with nothing (\<open>requests.get\<close> raises) or with a reply: a
  status code and a body, in which \<open>pd.read_html\<close> finds tables or fails.
\<close>

datatype body = Unparseable | Tables "dataframe list"

datatype reply = Reply nat body

type_synonym web = "ustr \<Rightarrow> reply option"

definition requests_get :: "web \<Rightarrow> ustr \<Rightarrow> error + reply" where
  "requests_get net url = (case net url of None \<Rightarrow> Inl SourceError | Some r \<Rightarrow> Inr r)"

fun raise_for_status :: "reply \<Rightarrow> error + reply" where
  "raise_for_status (Reply status b) =
     (if 400 \<le> status \<and> status < 600 then Inl SourceError else Inr (Reply status b))"

fun read_html :: "reply \<Rightarrow> error + dataframe list" where
  "read_html (Reply status Unparseable) = Inl SourceError"
| "read_html (Reply status (Tables dfs)) = (if dfs = [] then Inl ValueError else Inr dfs)"

text \<open>
  The column loop has no \<open>break\<close>: each matching header overwrites the choice made
  before it.
\<close>

definition is_region_header :: "ustr \<Rightarrow> bool" where
  "is_region_header c_str \<longleftrightarrow> py_in tok_region c_str \<or> py_in tok_subject c_str"

definition is_wage_header :: "ustr \<Rightarrow> bool" where
  "is_wage_header c_str \<longleftrightarrow> py_in tok_salary c_str \<or> py_in tok_earnings c_str"

fun select_cols :: "ustr list \<Rightarrow> ustr option \<times> ustr option \<Rightarrow> ustr option \<times> ustr option" where
  "select_cols [] sel = sel"
| "select_cols (c # cs) (region_col, wage_col) =
     (let c_str = py_lower c;
          region_col' = (if is_region_header c_str then Some c else region_col);
          wage_col' = (if is_wage_header c_str then Some c else wage_col)
      in select_cols cs (region_col', wage_col'))"

text \<open>\<open>not col\<close>: the label is \<open>None\<close> or the empty string.\<close>

fun not_col :: "ustr option \<Rightarrow> bool" where
  "not_col None = True"
| "not_col (Some c) = (c = [])"

definition html_wage :: "cell \<Rightarrow> pynum option" where
  "html_wage c =
     py_float (replace_char 44 [46] (replace_char 32 [] (replace_char 8239 [] (cell_str c))))"

fun html_rows :: "ustr list \<Rightarrow> ustr \<Rightarrow> ustr \<Rightarrow> cell list list \<Rightarrow> table \<Rightarrow> table" where
  "html_rows cols region_col wage_col [] result = result"
| "html_rows cols region_col wage_col (row # rest) result =
     (case row_get cols row wage_col of
        None \<Rightarrow> html_rows cols region_col wage_col rest result
      | Some wc \<Rightarrow>
          (case html_wage wc of
             None \<Rightarrow> html_rows cols region_col wage_col rest result
           | Some w \<Rightarrow>
               (case row_get cols row region_col of
                  None \<Rightarrow> html_rows cols region_col wage_col rest result
                | Some rc \<Rightarrow>
                    html_rows cols region_col wage_col rest
                      (AList.update (py_strip (cell_str rc)) (num_round2 w) result))))"

text \<open>
  What one table contributes: \<open>None\<close> when the loop moves on to the next table (the
  header test fails, a column is not found, or no row is usable), otherwise the
  non-empty mapping that the function returns.
\<close>

definition extract_table :: "dataframe \<Rightarrow> table option" where
  "extract_table df =
     (let cols = py_lower (py_join [32] (columns df))
      in if is_region_header cols then
           (case select_cols (columns df) (None, None) of
              (region_col, wage_col) \<Rightarrow>
                if not_col region_col \<or> not_col wage_col then None
                else
                  (case (region_col, wage_col) of
                     (Some rc, Some wc) \<Rightarrow>
                       (let result = html_rows (columns df) rc wc (rows df) []
                        in if result \<noteq> [] then Some result else None)
                   | _ \<Rightarrow> None))
         else None)"

fun scan_tables :: "dataframe list \<Rightarrow> table option" where
  "scan_tables [] = None"
| "scan_tables (df # dfs) =
     (case extract_table df of
        Some result \<Rightarrow> Some result
      | None \<Rightarrow> scan_tables dfs)"

text \<open>The body of the \<open>try\<close>, and the function with its \<open>except Exception\<close>.\<close>

definition fetch_try :: "web \<Rightarrow> ustr \<Rightarrow> error + table option" where
  "fetch_try net url =
     (case requests_get net url of
        Inl e \<Rightarrow> Inl e
      | Inr resp \<Rightarrow>
          (case raise_for_status resp of
             Inl e \<Rightarrow> Inl e
           | Inr resp' \<Rightarrow>
               (case read_html resp' of
                  Inl e \<Rightarrow> Inl e
                | Inr tables \<Rightarrow> Inr (scan_tables tables))))"

definition fetch_from_rosstat_html :: "web \<Rightarrow> ustr \<Rightarrow> error + table option" where
  "fetch_from_rosstat_html net url =
     (case fetch_try net url of
        Inl e \<Rightarrow> Inr None
      | Inr r \<Rightarrow> Inr r)"

section \<open>load\_regions\_data\<close>

fun find_july :: "ustr list \<Rightarrow> ustr option" where
  "find_july [] = None"
| "find_july (c # cs) = (if py_in tok_july (py_lower c) then Some c else find_july cs)"

definition excel_wage :: "cell \<Rightarrow> pynum option" where
  "excel_wage c = py_float (replace_char 44 [46] (replace_char 32 [] (cell_str c)))"

text \<open>
  The row loop of the spreadsheet tier. \<open>region\<close> is a \<open>str\<close> by then, so
  \<open>pd.isna(region)\<close> is false and only a missing wage skips the row there. A failing
  \<open>row[...]\<close> stands outside the inner \<open>try\<close> and ends the tier.
\<close>

fun excel_rows :: "ustr list \<Rightarrow> ustr \<Rightarrow> ustr \<Rightarrow> cell list list \<Rightarrow> table \<Rightarrow> error + table" where
  "excel_rows cols region_col wage_col [] result = Inr result"
| "excel_rows cols region_col wage_col (row # rest) result =
     (case row_get cols row region_col of
        None \<Rightarrow> Inl KeyError
      | Some rc \<Rightarrow>
          (case row_get cols row wage_col of
             None \<Rightarrow> Inl KeyError
           | Some wage \<Rightarrow>
               (let region = py_strip (cell_str rc)
                in if isna (CStr region) \<or> isna wage
                   then excel_rows cols region_col wage_col rest result
                   else
                     (case excel_wage wage of
                        None \<Rightarrow> excel_rows cols region_col wage_col rest result
                      | Some wage_value \<Rightarrow>
                          if \<not> py_in tok_district (py_lower region)
                             \<and> \<not> py_in tok_russian (py_lower region)
                          then excel_rows cols region_col wage_col rest
                                 (AList.update region (num_round2 wage_value) result)
                          else excel_rows cols region_col wage_col rest result))))"

text \<open>The spreadsheet tier up to its \<open>if result:\<close>; \<open>Inl\<close> is an exception in the \<open>try\<close>.\<close>

definition excel_parse :: "workbook \<Rightarrow> error + table" where
  "excel_parse wb =
     (case wb of
        Unreadable \<Rightarrow> Inl SourceError
      | Sheet df \<Rightarrow>
          (case columns df of
             [] \<Rightarrow> Inl IndexError
           | region_col # _ \<Rightarrow>
               (let wage_col = (case find_july (columns df) of
                                  Some c \<Rightarrow> c
                                | None \<Rightarrow> last (columns df))
                in excel_rows (columns df) region_col wage_col (rows df) [])))"

text \<open>
  The outcome of the spreadsheet tier: the table it saves and returns, or \<open>None\<close> when
  the loader goes on to the snapshot (no file, an exception, or an empty result).
\<close>

definition excel_tier :: "workbook option \<Rightarrow> table option" where
  "excel_tier f =
     (case f of
        None \<Rightarrow> None
      | Some wb \<Rightarrow>
          (case excel_parse wb of
             Inl e \<Rightarrow> None
           | Inr result \<Rightarrow> if result \<noteq> [] then Some result else None))"

text \<open>
  The defaults: the regions of Belgorod, Vladimir and Nizhny Novgorod, Moscow, and the
  Moscow region.
\<close>

definition fallback :: table where
  "fallback =
     [([1041, 1077, 1083, 1075, 1086, 1088, 1086, 1076, 1089, 1082, 1072, 1103, 32,
        1086, 1073, 1083, 1072, 1089, 1090, 1100], PInt 75834),
      ([1042, 1083, 1072, 1076, 1080, 1084, 1080, 1088, 1089, 1082, 1072, 1103, 32,
        1086, 1073, 1083, 1072, 1089, 1090, 1100], PInt 73240),
      ([1053, 1080, 1078, 1077, 1075, 1086, 1088, 1086, 1076, 1089, 1082, 1072, 1103, 32,
        1086, 1073, 1083, 1072, 1089, 1090, 1100], PInt 81230),
      ([1052, 1086, 1089, 1082, 1074, 1072], PInt 178596),
      ([1052, 1086, 1089, 1082, 1086, 1074, 1089, 1082, 1072, 1103, 32,
        1086, 1073, 1083, 1072, 1089, 1090, 1100], PInt 115811)]"

text \<open>
  The loader returns the table and the files as it leaves them; \<open>Inl\<close> is an exception
  that leaves the function.
\<close>

definition load_regions_data :: "fs \<Rightarrow> error + (json \<times> fs)" where
  "load_regions_data s =
     (case excel_tier (excel s) of
        Some result \<Rightarrow> Inr (json_of_table result, save_local result s)
      | None \<Rightarrow>
          (case try_load_from_local s of
             Inl e \<Rightarrow> Inl e
           | Inr local \<Rightarrow>
               if truthy local then Inr (local, s)
               else Inr (json_of_table fallback, save_local fallback s)))"

section \<open>Notions used in the properties\<close>

text \<open>A string is trimmed when \<open>strip\<close> leaves it as it is.\<close>

definition trimmed :: "ustr \<Rightarrow> bool" where
  "trimmed k \<longleftrightarrow> py_strip k = k"

text \<open>
  A rational with a finite decimal expansion. Every double is one, and so is every
  multiple of 1/100.
\<close>

definition finite_decimal :: "rat \<Rightarrow> bool" where
  "finite_decimal r \<longleftrightarrow> (\<exists>k::nat. r * 10 ^ k \<in> \<int>)"

fun decimal_num :: "pynum \<Rightarrow> bool" where
  "decimal_num (PFloat r) = finite_decimal r"
| "decimal_num v = True"

text \<open>A number that \<open>round(\<cdot>, 2)\<close> leaves as it is.\<close>

definition rounded2 :: "pynum \<Rightarrow> bool" where
  "rounded2 v \<longleftrightarrow> num_round2 v = v"

text \<open>A number that is not below zero; nan is not.\<close>

fun nonneg_num :: "pynum \<Rightarrow> bool" where
  "nonneg_num (PInt i) = (0 \<le> i)"
| "nonneg_num (PFloat r) = (0 \<le> r)"
| "nonneg_num PInf = True"
| "nonneg_num NInf = False"
| "nonneg_num NaN = False"

text \<open>The region names the spreadsheet tier leaves out.\<close>

definition aggregate_name :: "ustr \<Rightarrow> bool" where
  "aggregate_name region \<longleftrightarrow>
     py_in tok_district (py_lower region) \<or> py_in tok_russian (py_lower region)"

text \<open>The header tests of the column loop, on a label as it stands in the table.\<close>

definition region_label :: "ustr \<Rightarrow> bool" where
  "region_label c \<longleftrightarrow> is_region_header (py_lower c)"

definition wage_label :: "ustr \<Rightarrow> bool" where
  "wage_label c \<longleftrightarrow> is_wage_header (py_lower c)"

text \<open>
  The text that the dump writes behind the opening quote of the first key: the members
  one after the other, up to and including the closing brace.
\<close>

fun members_text :: "table \<Rightarrow> ustr" where
  "members_text [] = []"
| "members_text [kv] =
     concat (map escape_char (fst kv)) @ [34, 58, 32] @ json_num (snd kv) @ [10, 125]"
| "members_text (kv # kv' # rest) =
     concat (map escape_char (fst kv)) @ [34, 58, 32] @ json_num (snd kv)
       @ [44, 10, 32, 32, 34] @ members_text (kv' # rest)"

text \<open>The dict that results from assigning the entries of a table one after the other.\<close>

definition assign_all :: "(ustr \<times> json) list \<Rightarrow> table \<Rightarrow> (ustr \<times> json) list" where
  "assign_all acc t = foldl (\<lambda>a kv. AList.update (fst kv) (JNum (snd kv)) a) acc t"

section \<open>Example inputs\<close>

text \<open>
  Headers: Region, Subject, Salary, Salary 2023, Salary 2024, July 2024 (in Cyrillic,
  capitalised as in a table). Region names: Moscow and Central district.
\<close>

definition h_region :: ustr where
  "h_region = [1056, 1077, 1075, 1080, 1086, 1085]"

definition h_subject :: ustr where
  "h_subject = [1057, 1091, 1073, 1098, 1077, 1082, 1090]"

definition h_salary :: ustr where
  "h_salary = [1047, 1072, 1088, 1087, 1083, 1072, 1090, 1072]"

definition h_salary23 :: ustr where
  "h_salary23 = [1047, 1072, 1088, 1087, 1083, 1072, 1090, 1072, 32, 50, 48, 50, 51]"

definition h_salary24 :: ustr where
  "h_salary24 = [1047, 1072, 1088, 1087, 1083, 1072, 1090, 1072, 32, 50, 48, 50, 52]"

definition h_july24 :: ustr where
  "h_july24 = [1048, 1102, 1083, 1100, 32, 50, 48, 50, 52]"

definition moscow :: ustr where
  "moscow = [1052, 1086, 1089, 1082, 1074, 1072]"

definition central_district :: ustr where
  "central_district =
     [1062, 1077, 1085, 1090, 1088, 1072, 1083, 1100, 1085, 1099, 1081, 32,
      1086, 1082, 1088, 1091, 1075]"

text \<open>
  A table with two salary columns and numeric wage cells; the table of the parser test
  (headers Subject and July 2024, a leaf region and a district, wages written with a
  thousands space and a decimal comma); the same rows under the headers Subject and
  Salary; a table without a region header; a sheet with a negative wage.
\<close>

definition two_salaries :: dataframe where
  "two_salaries =
     \<lparr>columns = [h_region, h_salary23, h_salary24],
      rows = [[CStr moscow, CNum (PInt 100), CNum (PInt 200)]]\<rparr>"

definition leaf_and_district :: "cell list list" where
  "leaf_and_district =
     [[CStr moscow, CStr [49, 55, 56, 32, 53, 57, 54, 44, 53]],
      [CStr central_district, CStr [49, 50, 48, 32, 48, 48, 48]]]"

definition july_table :: dataframe where
  "july_table = \<lparr>columns = [h_subject, h_july24], rows = leaf_and_district\<rparr>"

definition salary_table :: dataframe where
  "salary_table = \<lparr>columns = [h_subject, h_salary], rows = leaf_and_district\<rparr>"

definition plain_table :: dataframe where
  "plain_table = \<lparr>columns = [[97], [98]], rows = [[CStr [120], CStr [49]]]\<rparr>"

definition negative_sheet :: dataframe where
  "negative_sheet =
     \<lparr>columns = [h_subject, h_july24], rows = [[CStr moscow, CNum (PInt (- 5))]]\<rparr>"

text \<open>
  A network: the first address does not answer, the second answers 404, the third and
  fourth have a body without tables, the fifth has three tables of which the second is
  the first usable one, the sixth has the table with the headers Subject and Salary, the
  seventh the table of the parser test, every other one only unusable tables.
\<close>

definition example_web :: web where
  "example_web url =
     (if url = [49] then None
      else if url = [50] then Some (Reply 404 (Tables [salary_table]))
      else if url = [51] then Some (Reply 200 (Tables []))
      else if url = [52] then Some (Reply 200 Unparseable)
      else if url = [53] then Some (Reply 200 (Tables [plain_table, two_salaries, salary_table]))
      else if url = [54] then Some (Reply 200 (Tables [salary_table]))
      else if url = [55] then Some (Reply 200 (Tables [july_table]))
      else Some (Reply 200 (Tables [plain_table, july_table])))"


text \<open>
  The five defaults as the dict that the loader returns, and the text of their dump as it
  stands in the snapshot file: one member to a line behind two spaces, the Cyrillic names
  between their quotes as they are, the wages as ints.
\<close>

definition defaults_dict :: json where
  "defaults_dict =
     JObj
      [([1041, 1077, 1083, 1075, 1086, 1088, 1086, 1076, 1089, 1082, 1072, 1103, 32,
         1086, 1073, 1083, 1072, 1089, 1090, 1100], JNum (PInt 75834)),
       ([1042, 1083, 1072, 1076, 1080, 1084, 1080, 1088, 1089, 1082, 1072, 1103, 32,
         1086, 1073, 1083, 1072, 1089, 1090, 1100], JNum (PInt 73240)),
       ([1053, 1080, 1078, 1077, 1075, 1086, 1088, 1086, 1076, 1089, 1082, 1072, 1103, 32,
         1086, 1073, 1083, 1072, 1089, 1090, 1100], JNum (PInt 81230)),
       ([1052, 1086, 1089, 1082, 1074, 1072], JNum (PInt 178596)),
       ([1052, 1086, 1089, 1082, 1086, 1074, 1089, 1082, 1072, 1103, 32,
         1086, 1073, 1083, 1072, 1089, 1090, 1100], JNum (PInt 115811))]"

definition defaults_text :: ustr where
  "defaults_text =
    [123, 10, 32, 32, 34, 1041, 1077, 1083, 1075, 1086, 1088, 1086, 1076,
     1089, 1082, 1072, 1103, 32, 1086, 1073, 1083, 1072, 1089, 1090, 1100,
     34, 58, 32, 55, 53, 56, 51, 52, 44, 10, 32, 32, 34, 1042, 1083, 1072,
     1076, 1080, 1084, 1080, 1088, 1089, 1082, 1072, 1103, 32, 1086, 1073,
     1083, 1072, 1089, 1090, 1100, 34, 58, 32, 55, 51, 50, 52, 48, 44, 10,
     32, 32, 34, 1053, 1080, 1078, 1077, 1075, 1086, 1088, 1086, 1076, 1089,
     1082, 1072, 1103, 32, 1086, 1073, 1083, 1072, 1089, 1090, 1100, 34, 58,
     32, 56, 49, 50, 51, 48, 44, 10, 32, 32, 34, 1052, 1086, 1089, 1082,
     1074, 1072, 34, 58, 32, 49, 55, 56, 53, 57, 54, 44, 10, 32, 32, 34,
     1052, 1086, 1089, 1082, 1086, 1074, 1089, 1082, 1072, 1103, 32, 1086,
     1073, 1083, 1072, 1089, 1090, 1100, 34, 58, 32, 49, 49, 53, 56, 49, 49,
     10, 125]"
section \<open>Properties of calculate\_pdn\<close>







text \<open>
  C2. \<open>calculate_pdn\<close> fails exactly when the income is 0 or below, and then with the
  ValueError of its guard; above 0 it returns a value; whether it fails does not depend
  on the payments.
\<close>

theorem calculate_pdn_error:
  "((\<exists>e. calculate_pdn income payments = Inl e) \<longleftrightarrow> income \<le> 0)
   \<and> (income \<le> 0 \<longrightarrow> calculate_pdn income payments = Inl ValueError)
   \<and> (0 < income \<longrightarrow> (\<exists>r. calculate_pdn income payments = Inr r))
   \<and> (calculate_pdn income payments = Inl e \<longleftrightarrow> calculate_pdn income payments' = Inl e)"
  by (simp add: calculate_pdn_def Let_def)

theorem calculate_pdn_error_witness:
  "calculate_pdn 0 [100, 200] = Inl ValueError
   \<and> calculate_pdn (- 5) [100, 200] = Inl ValueError
   \<and> (\<exists>r. calculate_pdn 1000 [100, 200] = Inr r)"
  using calculate_pdn_error [of 0 "[100, 200]"] calculate_pdn_error [of "- 5" "[100, 200]"]
    calculate_pdn_error [of 1000 "[100, 200]"]
  by simp

section \<open>Evaluation on concrete inputs\<close>

lemmas text_defs = py_lower_def lower_cp_def py_strip_def py_isspace_def replace_char_def

lemmas tok_defs = tok_region_def tok_subject_def tok_salary_def tok_earnings_def tok_july_def
  tok_district_def tok_russian_def is_region_header_def is_wage_header_def

lemmas float_defs = py_float_def parse_decimal_def parse_exponent_def is_digit_def
  nat_of_digits_def pow10_def py_round2_def round_half_even_def show_int_def show_nat.simps

lemmas example_defs = h_region_def h_subject_def h_salary_def h_salary23_def h_salary24_def
  h_july24_def moscow_def central_district_def two_salaries_def leaf_and_district_def
  july_table_def salary_table_def plain_table_def negative_sheet_def

lemma extract_plain_table: "extract_table plain_table = None"
  by (simp add: example_defs text_defs tok_defs extract_table_def)

lemma extract_two_salaries: "extract_table two_salaries = Some [(moscow, PFloat 200)]"
  by (simp add: example_defs text_defs tok_defs float_defs extract_table_def row_get_def
      html_wage_def)

lemma extract_july_table: "extract_table july_table = None"
  by (simp add: example_defs text_defs tok_defs extract_table_def)

lemma extract_salary_table:
  "extract_table salary_table =
     Some [(moscow, PFloat (357193 / 2)), (central_district, PFloat 120000)]"
  by (simp add: example_defs text_defs tok_defs float_defs extract_table_def row_get_def
      html_wage_def)

lemma excel_parse_july_table:
  "excel_parse (Sheet july_table) = Inr [(moscow, PFloat (357193 / 2))]"
  by (simp add: example_defs text_defs tok_defs float_defs excel_parse_def row_get_def
      excel_wage_def)

lemma excel_parse_negative_sheet:
  "excel_parse (Sheet negative_sheet) = Inr [(moscow, PFloat (- 5))]"
  by (simp add: example_defs text_defs tok_defs float_defs excel_parse_def row_get_def
      excel_wage_def)

lemma aggregate_central_district: "aggregate_name central_district"
  by (simp add: example_defs text_defs tok_defs aggregate_name_def)

lemma not_aggregate_moscow: "\<not> aggregate_name moscow"
  by (simp add: example_defs text_defs tok_defs aggregate_name_def)

section \<open>Column selection of the HTML parser\<close>

lemma find_append_case:
  "List.find P (xs @ ys) = (case List.find P xs of Some x \<Rightarrow> Some x | None \<Rightarrow> List.find P ys)"
  by (induction xs) simp_all

lemma select_cols_last:
  "select_cols cols (r, w) =
     (case List.find region_label (rev cols) of Some c \<Rightarrow> Some c | None \<Rightarrow> r,
      case List.find wage_label (rev cols) of Some c \<Rightarrow> Some c | None \<Rightarrow> w)"
  by (induction cols arbitrary: r w)
    (simp_all add: find_append_case Let_def region_label_def wage_label_def split: option.splits)

text \<open>
  C8, as the code has it. The column loop of \<open>fetch_from_rosstat_html\<close> runs over all
  headers without leaving at a match, so among several headers that match the wage
  tokens the last one in header order is the wage column (and likewise for the region
  column): the choice is the first match of the reversed header list.
\<close>

theorem wage_column_last_match:
  "snd (select_cols cols (None, None)) = List.find wage_label (rev cols)
   \<and> fst (select_cols cols (None, None)) = List.find region_label (rev cols)"
  by (simp add: select_cols_last split: option.splits)

theorem wage_column_last_match_witness:
  "snd (select_cols [h_region, h_salary23, h_salary24] (None, None)) = Some h_salary24
   \<and> fst (select_cols [h_region, h_salary23, h_salary24] (None, None)) = Some h_region"
  using wage_column_last_match [of "[h_region, h_salary23, h_salary24]"]
  by (simp add: example_defs text_defs tok_defs wage_label_def region_label_def)

text \<open>
  C8, as the specification states it, fails: with the headers Region, Salary 2023 and
  Salary 2024 two headers match, the first match is Salary 2023, and the parser takes
  Salary 2024; the wage it extracts is the one of that column.
\<close>

theorem wage_column_first_match_counterexample:
  "filter wage_label (columns two_salaries) = [h_salary23, h_salary24]
   \<and> List.find wage_label (columns two_salaries) = Some h_salary23
   \<and> snd (select_cols (columns two_salaries) (None, None)) = Some h_salary24
   \<and> h_salary23 \<noteq> h_salary24
   \<and> extract_table two_salaries = Some [(moscow, PFloat 200)]"
proof -
  have "filter wage_label (columns two_salaries) = [h_salary23, h_salary24]"
    by (simp add: example_defs text_defs tok_defs wage_label_def)
  moreover have "List.find wage_label (columns two_salaries) = Some h_salary23"
    by (simp add: example_defs text_defs tok_defs wage_label_def)
  moreover have "snd (select_cols (columns two_salaries) (None, None)) = Some h_salary24"
    by (simp add: example_defs text_defs tok_defs)
  moreover have "h_salary23 \<noteq> h_salary24"
    by (simp add: example_defs)
  ultimately show ?thesis
    using extract_two_salaries by simp
qed

section \<open>The HTML fetch never raises\<close>

lemma scan_tables_none: "(\<forall>df \<in> set dfs. extract_table df = None) \<Longrightarrow> scan_tables dfs = None"
  by (induction dfs) simp_all

lemma scan_tables_first:
  "(\<forall>d \<in> set pre. extract_table d = None) \<Longrightarrow> extract_table df = Some t \<Longrightarrow>
   scan_tables (pre @ df # post) = Some t"
  by (induction pre) simp_all

lemma scan_tables_some: "scan_tables dfs = Some t \<Longrightarrow> \<exists>df \<in> set dfs. extract_table df = Some t"
  by (induction dfs) (auto split: option.splits)

lemma extract_table_nonempty: "extract_table df = Some t \<Longrightarrow> t \<noteq> []"
  by (auto simp: extract_table_def Let_def split: if_splits prod.splits option.splits)

lemmas fetch_defs = fetch_from_rosstat_html_def fetch_try_def requests_get_def

text \<open>
  C7. For every network and URL, \<open>fetch_from_rosstat_html\<close> returns and does not raise.
  It returns \<open>None\<close> when the request fails, when the status is an error status, when
  the body has no table to read, and when no table yields a mapping. When the tables
  \<open>pre\<close> yield nothing and the next table \<open>df\<close> yields the mapping \<open>t\<close>, it returns
  \<open>t\<close>, which is not empty.
\<close>

theorem fetch_contained:
  "(\<exists>r. fetch_from_rosstat_html net url = Inr r)
   \<and> (net url = None \<longrightarrow> fetch_from_rosstat_html net url = Inr None)
   \<and> (net url = Some (Reply st b) \<and> 400 \<le> st \<and> st < 600 \<longrightarrow>
        fetch_from_rosstat_html net url = Inr None)
   \<and> (net url = Some (Reply st Unparseable) \<or> net url = Some (Reply st (Tables [])) \<longrightarrow>
        fetch_from_rosstat_html net url = Inr None)
   \<and> (net url = Some (Reply st (Tables dfs)) \<and> (\<forall>df \<in> set dfs. extract_table df = None) \<longrightarrow>
        fetch_from_rosstat_html net url = Inr None)
   \<and> (net url = Some (Reply st (Tables (pre @ df # post))) \<and> \<not> (400 \<le> st \<and> st < 600)
        \<and> (\<forall>d \<in> set pre. extract_table d = None) \<and> extract_table df = Some t \<longrightarrow>
        fetch_from_rosstat_html net url = Inr (Some t) \<and> t \<noteq> [])"
proof (intro conjI impI)
  show "\<exists>r. fetch_from_rosstat_html net url = Inr r"
    by (simp add: fetch_from_rosstat_html_def split: sum.splits)
next
  assume "net url = None"
  then show "fetch_from_rosstat_html net url = Inr None"
    by (simp add: fetch_defs)
next
  assume "net url = Some (Reply st b) \<and> 400 \<le> st \<and> st < 600"
  then show "fetch_from_rosstat_html net url = Inr None"
    by (simp add: fetch_defs)
next
  assume "net url = Some (Reply st Unparseable) \<or> net url = Some (Reply st (Tables []))"
  then show "fetch_from_rosstat_html net url = Inr None"
    by (auto simp: fetch_defs split: sum.splits if_splits)
next
  assume "net url = Some (Reply st (Tables dfs)) \<and> (\<forall>df \<in> set dfs. extract_table df = None)"
  then show "fetch_from_rosstat_html net url = Inr None"
    by (auto simp: fetch_defs scan_tables_none split: sum.splits if_splits)
next
  assume h: "net url = Some (Reply st (Tables (pre @ df # post))) \<and> \<not> (400 \<le> st \<and> st < 600)
        \<and> (\<forall>d \<in> set pre. extract_table d = None) \<and> extract_table df = Some t"
  then have "scan_tables (pre @ df # post) = Some t"
    by (simp add: scan_tables_first)
  with h show "fetch_from_rosstat_html net url = Inr (Some t)"
    by (auto simp: fetch_defs)
  from h have "extract_table df = Some t" by simp
  then show "t \<noteq> []" by (rule extract_table_nonempty)
qed

theorem fetch_contained_witness:
  "fetch_from_rosstat_html example_web [49] = Inr None
   \<and> fetch_from_rosstat_html example_web [50] = Inr None
   \<and> fetch_from_rosstat_html example_web [51] = Inr None
   \<and> fetch_from_rosstat_html example_web [52] = Inr None
   \<and> fetch_from_rosstat_html example_web [56] = Inr None
   \<and> fetch_from_rosstat_html example_web [53] = Inr (Some [(moscow, PFloat 200)])"
proof -
  have "fetch_from_rosstat_html example_web [49] = Inr None"
    using fetch_contained [where net = example_web and url = "[49]"]
    by (simp add: example_web_def)
  moreover have "fetch_from_rosstat_html example_web [50] = Inr None"
    using fetch_contained [where net = example_web and url = "[50]" and st = 404
        and b = "Tables [salary_table]"]
    by (simp add: example_web_def)
  moreover have "fetch_from_rosstat_html example_web [51] = Inr None"
    using fetch_contained [where net = example_web and url = "[51]" and st = 200]
    by (simp add: example_web_def)
  moreover have "fetch_from_rosstat_html example_web [52] = Inr None"
    using fetch_contained [where net = example_web and url = "[52]" and st = 200]
    by (simp add: example_web_def)
  moreover have "fetch_from_rosstat_html example_web [56] = Inr None"
    using fetch_contained [where net = example_web and url = "[56]" and st = 200
        and dfs = "[plain_table, july_table]"]
    by (simp add: example_web_def extract_plain_table extract_july_table)
  moreover have "fetch_from_rosstat_html example_web [53] = Inr (Some [(moscow, PFloat 200)])"
    using fetch_contained [where net = example_web and url = "[53]" and st = 200
        and pre = "[plain_table]" and df = two_salaries and post = "[salary_table]"
        and t = "[(moscow, PFloat 200)]"]
    by (simp add: example_web_def extract_plain_table extract_two_salaries)
  ultimately show ?thesis by simp
qed

section \<open>What the row loops store\<close>

lemma set_update_subset: "set (AList.update k v al) \<subseteq> insert (k, v) (set al)"
  by (induction al) auto

lemma last_dropWhile: "dropWhile P xs \<noteq> [] \<Longrightarrow> last (dropWhile P xs) = last xs"
  by (induction xs) (auto split: if_splits)

lemma py_strip_idem: "py_strip (py_strip s) = py_strip s"
proof -
  define a where "a = dropWhile py_isspace s"
  define b where "b = dropWhile py_isspace (rev a)"
  have strip: "py_strip s = rev b" by (simp add: py_strip_def a_def b_def)
  have b_self: "dropWhile py_isspace b = b"
    unfolding b_def by (simp add: dropWhile_idem)
  have "dropWhile py_isspace (rev b) = rev b"
  proof (cases "b = []")
    case True then show ?thesis by simp
  next
    case False
    then have "last b = last (rev a)" unfolding b_def by (rule last_dropWhile)
    moreover from False have "a \<noteq> []" unfolding b_def by auto
    ultimately have "hd (rev b) = hd a" using False by (simp add: hd_rev last_rev)
    moreover have "\<not> py_isspace (hd a)" using \<open>a \<noteq> []\<close> unfolding a_def by (rule hd_dropWhile)
    ultimately show ?thesis using False by (simp add: dropWhile_eq_self_iff)
  qed
  then have "py_strip (rev b) = rev b"
    by (simp add: py_strip_def [of "rev b"] b_self)
  then show ?thesis by (simp only: strip)
qed

lemma trimmed_strip: "trimmed (py_strip s)"
  by (simp add: trimmed_def py_strip_idem)

lemma round_half_even_of_int: "round_half_even (of_int i) = i"
  by (simp add: round_half_even_def)

lemma py_round2_idem: "py_round2 (py_round2 x) = py_round2 x"
  by (simp add: py_round2_def round_half_even_of_int)

lemma rounded2_round2: "rounded2 (num_round2 v)"
  by (cases v) (simp_all add: rounded2_def py_round2_idem)

lemma html_rows_inv:
  "(\<forall>kv \<in> set result. P kv) \<Longrightarrow> (\<And>s w. P (py_strip s, num_round2 w)) \<Longrightarrow>
   \<forall>kv \<in> set (html_rows cols rc wc rs result). P kv"
proof (induction rs arbitrary: result)
  case Nil then show ?case by simp
next
  case (Cons row rest)
  have upd: "\<forall>kv \<in> set (AList.update (py_strip s) (num_round2 w) result). P kv" for s w
    using Cons.prems set_update_subset [of "py_strip s" "num_round2 w" result] by auto
  show ?case
    using Cons.IH [OF Cons.prems(1) Cons.prems(2)] Cons.IH [OF upd Cons.prems(2)]
    by (simp split: option.splits)
qed

lemma excel_rows_inv:
  "excel_rows cols rc wc rs result = Inr t \<Longrightarrow> (\<forall>kv \<in> set result. P kv) \<Longrightarrow>
   (\<And>s w. \<not> aggregate_name (py_strip s) \<Longrightarrow> P (py_strip s, num_round2 w)) \<Longrightarrow>
   \<forall>kv \<in> set t. P kv"
proof (induction rs arbitrary: result)
  case Nil then show ?case by simp
next
  case (Cons row rest)
  have upd: "\<forall>kv \<in> set (AList.update (py_strip s) (num_round2 w) result). P kv"
    if "\<not> aggregate_name (py_strip s)" for s w
    using Cons.prems(2) Cons.prems(3) [OF that] set_update_subset [of "py_strip s" "num_round2 w" result]
    by auto
  from Cons.prems(1) show ?case
    using Cons.IH [OF _ Cons.prems(2) Cons.prems(3)] Cons.IH [OF _ upd Cons.prems(3)]
    by (auto simp: Let_def aggregate_name_def split: option.splits if_splits)
qed

lemma excel_parse_inv:
  assumes "excel_parse wb = Inr t"
    and "\<And>s w. \<not> aggregate_name (py_strip s) \<Longrightarrow> P (py_strip s, num_round2 w)"
  shows "\<forall>kv \<in> set t. P kv"
proof -
  from assms(1) obtain cols rc wc rs where "excel_rows cols rc wc rs [] = Inr t"
    by (auto simp: excel_parse_def Let_def split: workbook.splits list.splits)
  then show ?thesis
    by (rule excel_rows_inv) (simp_all add: assms(2))
qed

lemma excel_tier_parse: "excel_tier f = Some t \<Longrightarrow> \<exists>wb. f = Some wb \<and> excel_parse wb = Inr t"
  by (auto simp: excel_tier_def split: option.splits sum.splits if_splits)

lemma extract_table_inv:
  assumes "extract_table df = Some t" and "\<And>s w. P (py_strip s, num_round2 w)"
  shows "\<forall>kv \<in> set t. P kv"
proof -
  from assms(1) obtain cols rc wc rs where "t = html_rows cols rc wc rs []"
    by (auto simp: extract_table_def Let_def split: if_splits prod.splits option.splits)
  then show ?thesis
    using html_rows_inv [of "[]" P cols rc wc rs] assms(2) by simp
qed

lemma fetch_some_extract:
  "fetch_from_rosstat_html net url = Inr (Some t) \<Longrightarrow> \<exists>df. extract_table df = Some t"
  by (auto simp: fetch_defs split: sum.splits dest: scan_tables_some)

section \<open>Aggregate rows\<close>

text \<open>
  The row loop of the spreadsheet tier stores a row only if its region name, in lower
  case, contains neither the district token nor the Russian token, so no table this tier
  produces has such a key. On the table with the headers Subject and July 2024, a Moscow
  row and a Central district row, it yields the mapping with Moscow alone, and that is
  what the loader saves and returns.
\<close>

lemma excel_excludes_aggregates:
  "(excel_parse wb = Inr t \<longrightarrow> (\<forall>kv \<in> set t. \<not> aggregate_name (fst kv)))
   \<and> (excel_tier f = Some t' \<longrightarrow> (\<forall>kv \<in> set t'. \<not> aggregate_name (fst kv)))
   \<and> excel_parse (Sheet july_table) = Inr [(moscow, PFloat (357193 / 2))]
   \<and> aggregate_name central_district
   \<and> load_regions_data \<lparr>excel = Some (Sheet july_table), snapshot = old, writes = ws\<rparr> =
       Inr (json_of_table [(moscow, PFloat (357193 / 2))],
            save_local [(moscow, PFloat (357193 / 2))]
              \<lparr>excel = Some (Sheet july_table), snapshot = old, writes = ws\<rparr>)"
proof (intro conjI impI)
  assume "excel_parse wb = Inr t"
  then show "\<forall>kv \<in> set t. \<not> aggregate_name (fst kv)"
    by (rule excel_parse_inv) simp
next
  assume "excel_tier f = Some t'"
  then obtain wb' where "excel_parse wb' = Inr t'"
    by (auto dest: excel_tier_parse)
  then show "\<forall>kv \<in> set t'. \<not> aggregate_name (fst kv)"
    by (rule excel_parse_inv) simp
next
  show "excel_parse (Sheet july_table) = Inr [(moscow, PFloat (357193 / 2))]"
    by (rule excel_parse_july_table)
  show "aggregate_name central_district"
    by (rule aggregate_central_district)
  show "load_regions_data \<lparr>excel = Some (Sheet july_table), snapshot = old, writes = ws\<rparr> =
       Inr (json_of_table [(moscow, PFloat (357193 / 2))],
            save_local [(moscow, PFloat (357193 / 2))]
              \<lparr>excel = Some (Sheet july_table), snapshot = old, writes = ws\<rparr>)"
    by (simp add: load_regions_data_def excel_tier_def excel_parse_july_table)
qed

lemma excel_excludes_aggregates_example:
  "excel_parse (Sheet july_table) = Inr [(moscow, PFloat (357193 / 2))]
   \<and> excel_tier (Some (Sheet july_table)) = Some [(moscow, PFloat (357193 / 2))]
   \<and> \<not> aggregate_name moscow
   \<and> aggregate_name central_district"
  using excel_excludes_aggregates [of "Sheet july_table" "[(moscow, PFloat (357193 / 2))]"
      "Some (Sheet july_table)" "[(moscow, PFloat (357193 / 2))]"]
  by (simp add: excel_tier_def)

text \<open>
  C4 and the code. The exclusion of aggregate rows is stated for the table-parsing
  routine, and the row loop of the spreadsheet tier applies it; the row loop of
  \<open>fetch_from_rosstat_html\<close> does not. From a Moscow row and a Central district row
  under the headers Subject and Salary the HTML parser returns both rows, the district
  among them, where the spreadsheet loop keeps Moscow alone from the same two rows. The
  table of the parser test, whose second header (July 2024) carries no wage token, gives
  the HTML parser no mapping at all.
\<close>

theorem html_keeps_aggregates:
  "fetch_from_rosstat_html example_web [54] =
     Inr (Some [(moscow, PFloat (357193 / 2)), (central_district, PFloat 120000)])
   \<and> aggregate_name central_district
   \<and> rows salary_table = rows july_table
   \<and> excel_parse (Sheet july_table) = Inr [(moscow, PFloat (357193 / 2))]
   \<and> fetch_from_rosstat_html example_web [55] = Inr None"
proof -
  have "rows salary_table = rows july_table"
    by (simp add: salary_table_def july_table_def)
  then show ?thesis
    by (simp add: fetch_defs example_web_def extract_salary_table extract_july_table
        aggregate_central_district excel_parse_july_table)
qed

section \<open>Keys and values of the tables\<close>

lemma fallback_entries:
  "\<forall>kv \<in> set fallback. trimmed (fst kv) \<and> fst kv \<noteq> [] \<and> rounded2 (snd kv) \<and> nonneg_num (snd kv)"
  by (simp add: fallback_def trimmed_def rounded2_def py_strip_def py_isspace_def)

text \<open>
  C9, as the code has it. In every table that the spreadsheet tier parses and in every
  table that the HTML fetch returns, each key is trimmed and each value is left as it is
  by \<open>round(\<cdot>, 2)\<close>: a multiple of 0.01, or nan or an infinity. The defaults have
  non-empty trimmed keys and non-negative values.
\<close>

theorem tables_trimmed_rounded:
  "(excel_parse wb = Inr t \<longrightarrow> (\<forall>kv \<in> set t. trimmed (fst kv) \<and> rounded2 (snd kv)))
   \<and> (fetch_from_rosstat_html net url = Inr (Some t') \<longrightarrow>
        (\<forall>kv \<in> set t'. trimmed (fst kv) \<and> rounded2 (snd kv)))
   \<and> (\<forall>kv \<in> set fallback.
        trimmed (fst kv) \<and> fst kv \<noteq> [] \<and> rounded2 (snd kv) \<and> nonneg_num (snd kv))"
proof (intro conjI impI)
  assume "excel_parse wb = Inr t"
  then show "\<forall>kv \<in> set t. trimmed (fst kv) \<and> rounded2 (snd kv)"
    by (rule excel_parse_inv) (simp add: trimmed_strip rounded2_round2)
next
  assume "fetch_from_rosstat_html net url = Inr (Some t')"
  then obtain df where "extract_table df = Some t'"
    by (auto dest: fetch_some_extract)
  then show "\<forall>kv \<in> set t'. trimmed (fst kv) \<and> rounded2 (snd kv)"
    by (rule extract_table_inv) (simp add: trimmed_strip rounded2_round2)
next
  show "\<forall>kv \<in> set fallback.
        trimmed (fst kv) \<and> fst kv \<noteq> [] \<and> rounded2 (snd kv) \<and> nonneg_num (snd kv)"
    by (rule fallback_entries)
qed

theorem tables_trimmed_rounded_witness:
  "excel_parse (Sheet july_table) = Inr [(moscow, PFloat (357193 / 2))]
   \<and> fetch_from_rosstat_html example_web [53] = Inr (Some [(moscow, PFloat 200)])
   \<and> trimmed moscow \<and> rounded2 (PFloat (357193 / 2)) \<and> rounded2 (PFloat 200)"
  using tables_trimmed_rounded [of "Sheet july_table" "[(moscow, PFloat (357193 / 2))]"
      example_web "[53]" "[(moscow, PFloat 200)]"]
  by (simp add: excel_parse_july_table fetch_defs example_web_def extract_plain_table
      extract_two_salaries)

text \<open>
  C9, as the specification states it, fails: no tier checks the sign of a wage. A sheet
  whose Moscow row has the wage -5 gives a table with that negative value, and the
  loader saves and returns it.
\<close>

theorem negative_wage_counterexample:
  "excel_parse (Sheet negative_sheet) = Inr [(moscow, PFloat (- 5))]
   \<and> \<not> nonneg_num (PFloat (- 5))
   \<and> load_regions_data \<lparr>excel = Some (Sheet negative_sheet), snapshot = None, writes = []\<rparr> =
       Inr (json_of_table [(moscow, PFloat (- 5))],
            save_local [(moscow, PFloat (- 5))]
              \<lparr>excel = Some (Sheet negative_sheet), snapshot = None, writes = []\<rparr>)"
  by (simp add: load_regions_data_def excel_tier_def excel_parse_negative_sheet)

section \<open>Numbers and their text\<close>


lemma nat_of_digits_snoc: "nat_of_digits (ds @ [d]) = 10 * nat_of_digits ds + (d - 48)"
  by (simp add: nat_of_digits_def)

lemma nat_of_digits_append:
  "nat_of_digits (xs @ ys) = nat_of_digits xs * 10 ^ length ys + nat_of_digits ys"
proof (induction ys rule: rev_induct)
  case Nil then show ?case by (simp add: nat_of_digits_def)
next
  case (snoc y ys)
  have "nat_of_digits (xs @ ys @ [y]) = 10 * nat_of_digits (xs @ ys) + (y - 48)"
    using nat_of_digits_snoc [of "xs @ ys" y] by simp
  with snoc show ?case by (simp add: nat_of_digits_snoc algebra_simps)
qed

lemma show_nat_digits: "list_all is_digit (show_nat n)"
proof (induction n rule: show_nat.induct)
  case (1 n)
  have d: "is_digit (48 + n mod 10)" by (simp add: is_digit_def)
  show ?case
  proof (cases "n < 10")
    case True
    with d show ?thesis by (subst show_nat.simps) simp
  next
    case False
    with 1 d show ?thesis by (subst show_nat.simps) simp
  qed
qed

lemma show_nat_nonempty: "show_nat n \<noteq> []"
  by (subst show_nat.simps) simp

lemma nat_of_digits_show_nat: "nat_of_digits (show_nat n) = n"
proof (induction n rule: show_nat.induct)
  case (1 n)
  show ?case
  proof (cases "n < 10")
    case True
    then show ?thesis by (subst show_nat.simps) (simp add: nat_of_digits_def)
  next
    case False
    with 1 have "nat_of_digits (show_nat (n div 10)) = n div 10" by simp
    with False show ?thesis
      by (subst show_nat.simps) (simp add: nat_of_digits_snoc)
  qed
qed

lemma hd_show_nat: "hd (show_nat n) = 48 \<Longrightarrow> show_nat n = [48]"
proof (induction n rule: show_nat.induct)
  case (1 n)
  show ?case
  proof (cases "n < 10")
    case True
    with 1(2) show ?thesis by (subst show_nat.simps, subst (asm) show_nat.simps) simp
  next
    case False
    from 1(2) False have "hd (show_nat (n div 10)) = 48"
      by (subst (asm) show_nat.simps) (simp add: show_nat_nonempty)
    with 1(1) False have "show_nat (n div 10) = [48]" by simp
    then have "nat_of_digits (show_nat (n div 10)) = 0" by (simp add: nat_of_digits_def)
    then have "n div 10 = 0" by (simp add: nat_of_digits_show_nat)
    with False show ?thesis by simp
  qed
qed

lemma Ints_unit_interval: "x \<in> \<int> \<Longrightarrow> 0 \<le> x \<Longrightarrow> x < 1 \<Longrightarrow> x = (0::rat)"
proof -
  assume "x \<in> \<int>" and a: "0 \<le> x" and b: "x < 1"
  then obtain z :: int where x: "x = of_int z" by (auto elim: Ints_cases)
  with a b have "0 \<le> z" and "z < 1" by simp_all
  then have "z = 0" by simp
  with x show ?thesis by simp
qed

lemma frac_digits_exact:
  "0 \<le> f \<Longrightarrow> f < 1 \<Longrightarrow> f * 10 ^ k \<in> \<int> \<Longrightarrow> k \<le> fuel \<Longrightarrow>
   list_all is_digit (frac_digits fuel f)
   \<and> of_nat (nat_of_digits (frac_digits fuel f)) = f * 10 ^ length (frac_digits fuel f)"
proof (induction fuel arbitrary: f k)
  case 0
  then have "f \<in> \<int>" by simp
  with 0 have "f = 0" by (simp add: Ints_unit_interval)
  then show ?case by (simp add: nat_of_digits_def)
next
  case (Suc n)
  show ?case
  proof (cases "f = 0")
    case True
    then show ?thesis by (simp add: nat_of_digits_def)
  next
    case False
    define d where "d = \<lfloor>f * 10\<rfloor>"
    define f' where "f' = f * 10 - of_int d"
    have d0: "0 \<le> d" using Suc.prems(1) by (simp add: d_def)
    have "f * 10 < 10" using Suc.prems(2) by simp
    then have d9: "d \<le> 9" unfolding d_def by (simp add: floor_less_iff flip: less_iff_succ_less_eq)
    have f'0: "0 \<le> f'" unfolding f'_def d_def by simp
    have f'1: "f' < 1" unfolding f'_def d_def by linarith
    have "k \<noteq> 0"
    proof
      assume "k = 0"
      with Suc.prems(3) have "f \<in> \<int>" by simp
      with Suc.prems(1,2) have "f = 0" by (simp add: Ints_unit_interval)
      with False show False by simp
    qed
    then obtain k' where k: "k = Suc k'" by (cases k) simp_all
    have "f' * 10 ^ k' = f * 10 ^ k - of_int d * 10 ^ k'"
      by (simp add: f'_def k algebra_simps)
    then have int': "f' * 10 ^ k' \<in> \<int>"
      using Suc.prems(3) by simp
    from Suc.prems(4) k have "k' \<le> n" by simp
    from Suc.IH [OF f'0 f'1 int' this]
    have ih1: "list_all is_digit (frac_digits n f')"
      and ih2: "of_nat (nat_of_digits (frac_digits n f')) = f' * 10 ^ length (frac_digits n f')"
      by simp_all
    have step: "frac_digits (Suc n) f = (48 + nat d) # frac_digits n f'"
      using False by (simp add: d_def f'_def Let_def)
    have dig: "is_digit (48 + nat d)" using d0 d9 by (simp add: is_digit_def)
    have "nat_of_digits ((48 + nat d) # frac_digits n f')
          = nat d * 10 ^ length (frac_digits n f') + nat_of_digits (frac_digits n f')"
      using nat_of_digits_append [of "[48 + nat d]" "frac_digits n f'"]
      by (simp add: nat_of_digits_def)
    then have "(of_nat (nat_of_digits ((48 + nat d) # frac_digits n f')) :: rat)
          = of_int d * 10 ^ length (frac_digits n f') + f' * 10 ^ length (frac_digits n f')"
      using d0 ih2 by simp
    also have "\<dots> = f * 10 ^ length ((48 + nat d) # frac_digits n f')"
      by (simp add: f'_def algebra_simps)
    finally have v: "(of_nat (nat_of_digits ((48 + nat d) # frac_digits n f')) :: rat)
          = f * 10 ^ length ((48 + nat d) # frac_digits n f')" .
    show ?thesis
      unfolding step using ih1 dig v by simp
  qed
qed

lemma coprime_5_nat: "\<not> 5 dvd (b::nat) \<Longrightarrow> coprime b 5"
proof (rule coprimeI)
  fix c assume n5: "\<not> 5 dvd b" and cb: "c dvd b" and c5: "c dvd 5"
  from c5 have "c \<le> 5" by (simp add: dvd_imp_le)
  then have "c = 0 \<or> c = 1 \<or> c = 2 \<or> c = 3 \<or> c = 4 \<or> c = 5" by arith
  with c5 cb n5 show "is_unit c" by auto
qed

lemma dvd_pow10_bound:
  fixes b :: nat
  shows "0 < b \<Longrightarrow> b dvd 10 ^ k \<Longrightarrow> \<exists>j<b. b dvd 10 ^ j"
proof (induction b rule: less_induct)
  case (less b)
  show ?case
  proof (cases "b = 1")
    case True
    then show ?thesis by (intro exI [of _ 0]) simp
  next
    case False
    with less.prems have b1: "1 < b" by simp
    have two_or_five: "2 dvd b \<or> 5 dvd b"
    proof (rule ccontr)
      assume "\<not> (2 dvd b \<or> 5 dvd b)"
      then have "coprime b 2" and "coprime b 5"
        by (simp_all add: coprime_5_nat)
      then have "coprime b (2 * 5)" by (simp only: coprime_mult_right_iff)
      then have "coprime b (10 ^ k)" by simp
      with less.prems(2) have "is_unit b" by (rule coprime_common_divisor [of b "10 ^ k" b, rotated 2]) simp
      with b1 show False by simp
    qed
    have key: "\<exists>j<b. b dvd 10 ^ j" if p10: "p dvd 10" and p1: "1 < p" and bc: "b = p * c" for p c
    proof -
      from less.prems bc have c0: "0 < c" by (auto intro: Nat.gr0I)
      from p1 bc c0 have cb: "c < b" by simp
      have "c dvd b" by (simp add: bc)
      with less.prems(2) have "c dvd 10 ^ k" by (rule dvd_trans [rotated])
      from less.IH [OF cb c0 this] obtain j where j: "j < c" and cj: "c dvd 10 ^ j" by blast
      from p10 cj have "p * c dvd 10 * 10 ^ j" by (rule mult_dvd_mono)
      then have "b dvd 10 ^ Suc j" by (simp add: bc)
      moreover have "Suc j < b"
      proof -
        from p1 obtain q where "p = Suc (1 + q)"
          by (auto simp: less_iff_Suc_add)
        then have "c + c \<le> p * c" by simp
        with j show ?thesis unfolding bc by linarith
      qed
      ultimately show ?thesis by blast
    qed
    from two_or_five show ?thesis
    proof
      assume "2 dvd b"
      then obtain c where "b = 2 * c" by (elim dvdE)
      with key [of 2 c] show ?thesis by simp
    next
      assume "5 dvd b"
      then obtain c where "b = 5 * c" by (elim dvdE)
      with key [of 5 c] show ?thesis by simp
    qed
  qed
qed



lemma finite_decimal_bound:
  assumes "finite_decimal a"
  shows "\<exists>k \<le> nat (snd (quotient_of a)). a * 10 ^ k \<in> \<int>"
proof -
  obtain p q where pq: "quotient_of a = (p, q)" by (cases "quotient_of a")
  then have q0: "0 < q" and cop: "coprime p q" and a: "a = of_int p / of_int q"
    by (simp_all add: quotient_of_denom_pos quotient_of_coprime quotient_of_div)
  from assms obtain k z where "a * 10 ^ k = of_int z"
    by (auto simp: finite_decimal_def elim: Ints_cases)
  then have "of_int p / of_int q * 10 ^ k = (of_int z :: rat)" by (simp only: a)
  then have "of_int p * 10 ^ k = (of_int z :: rat) * of_int q"
    using q0 by (simp add: field_simps)
  then have "(of_int (p * 10 ^ k) :: rat) = of_int (z * q)"
    by simp
  then have "p * 10 ^ k = z * q" by (simp only: of_int_eq_iff)
  then have "q dvd p * 10 ^ k" by simp
  with cop have "q dvd 10 ^ k"
    by (simp add: coprime_dvd_mult_right_iff coprime_commute)
  then have "nat q dvd nat (10 ^ k)" using q0 by (simp add: nat_dvd_iff)
  then have "nat q dvd 10 ^ k" by (simp add: nat_power_eq)
  moreover from q0 have "0 < nat q" by simp
  ultimately obtain j where j: "j < nat q" and dj: "nat q dvd 10 ^ j"
    using dvd_pow10_bound by blast
  from dj have "int (nat q) dvd int (10 ^ j)" by (simp only: int_dvd_int_iff)
  with q0 have "q dvd 10 ^ j" by simp
  then obtain m where m: "10 ^ j = q * m" by (elim dvdE)
  then have "(10 ^ j :: rat) = of_int q * of_int m"
    by (metis of_int_mult of_int_numeral of_int_power)
  with a q0 have "a * 10 ^ j = of_int (p * m)" by simp
  then have "a * 10 ^ j \<in> \<int>" by (simp only: Ints_of_int)
  with j pq show ?thesis by (intro exI [of _ j]) simp
qed


lemma finite_decimal_abs: "finite_decimal r \<Longrightarrow> finite_decimal \<bar>r\<bar>"
  unfolding finite_decimal_def
proof (elim exE)
  fix k assume "r * 10 ^ k \<in> \<int>"
  then have "\<bar>r * 10 ^ k\<bar> \<in> \<int>" by (rule Ints_abs)
  then have "\<bar>r\<bar> * 10 ^ k \<in> \<int>" by (simp add: abs_mult)
  then show "\<exists>k. \<bar>r\<bar> * 10 ^ k \<in> \<int>" ..
qed

lemma float_repr_shape:
  assumes "finite_decimal r"
  shows "\<exists>ip fd. float_repr r = (if r < 0 then [45] else []) @ ip @ 46 # fd
           \<and> list_all is_digit ip \<and> ip \<noteq> [] \<and> (hd ip = 48 \<longrightarrow> ip = [48])
           \<and> list_all is_digit fd \<and> fd \<noteq> []
           \<and> of_nat (nat_of_digits (ip @ fd)) = \<bar>r\<bar> * 10 ^ length fd"
proof -
  define a where "a = \<bar>r\<bar>"
  define n where "n = \<lfloor>a\<rfloor>"
  define f where "f = a - of_int n"
  define ds where "ds = frac_digits (nat (snd (quotient_of a))) f"
  define fd where "fd = (if ds = [] then [48] else ds)"
  define ip where "ip = show_nat (nat n)"
  have a0: "0 \<le> a" by (simp add: a_def)
  then have n0: "0 \<le> n" by (simp add: n_def)
  have f0: "0 \<le> f" and f1: "f < 1" unfolding f_def n_def by linarith+
  from assms have "finite_decimal a" unfolding a_def by (rule finite_decimal_abs)
  then obtain k where k: "k \<le> nat (snd (quotient_of a))" and ak: "a * 10 ^ k \<in> \<int>"
    using finite_decimal_bound by blast
  have "f * 10 ^ k = a * 10 ^ k - of_int (n * 10 ^ k)"
    by (simp add: f_def algebra_simps)
  with ak have fk: "f * 10 ^ k \<in> \<int>" by simp
  from frac_digits_exact [OF f0 f1 fk k]
  have ds1: "list_all is_digit ds" and ds2: "of_nat (nat_of_digits ds) = f * 10 ^ length ds"
    by (simp_all add: ds_def)
  have fd1: "list_all is_digit fd" using ds1 by (simp add: fd_def is_digit_def)
  have fd2: "fd \<noteq> []" by (simp add: fd_def)
  have fd3: "of_nat (nat_of_digits fd) = f * 10 ^ length fd"
  proof (cases "ds = []")
    case True
    with ds2 have "f = 0" by (simp add: nat_of_digits_def)
    with True show ?thesis by (simp add: fd_def nat_of_digits_def)
  next
    case False
    with ds2 show ?thesis by (simp add: fd_def)
  qed
  have "(of_nat (nat_of_digits (ip @ fd)) :: rat)
        = of_nat (nat n) * 10 ^ length fd + of_nat (nat_of_digits fd)"
    by (simp add: nat_of_digits_append ip_def nat_of_digits_show_nat)
  also have "\<dots> = of_int n * 10 ^ length fd + f * 10 ^ length fd"
    using n0 fd3 by simp
  also have "\<dots> = a * 10 ^ length fd"
    by (simp add: f_def algebra_simps)
  finally have val: "of_nat (nat_of_digits (ip @ fd)) = \<bar>r\<bar> * 10 ^ length fd"
    by (simp add: a_def)
  have "float_repr r = (if r < 0 then [45] else []) @ ip @ 46 # fd"
    by (simp add: float_repr_def Let_def a_def n_def f_def ds_def fd_def ip_def)
  moreover have "list_all is_digit ip" "ip \<noteq> []" "hd ip = 48 \<longrightarrow> ip = [48]"
    by (auto simp: ip_def show_nat_digits show_nat_nonempty hd_show_nat)
  ultimately show ?thesis using fd1 fd2 val by blast
qed

lemma py_strip_id:
  "s \<noteq> [] \<Longrightarrow> \<not> py_isspace (hd s) \<Longrightarrow> \<not> py_isspace (last s) \<Longrightarrow> py_strip s = s"
proof -
  assume s: "s \<noteq> []" and h: "\<not> py_isspace (hd s)" and l: "\<not> py_isspace (last s)"
  from h have a: "dropWhile py_isspace s = s" by (simp add: dropWhile_eq_self_iff)
  from s l have b: "dropWhile py_isspace (rev s) = rev s"
    by (simp add: dropWhile_eq_self_iff hd_rev)
  show ?thesis by (simp add: py_strip_def a b)
qed

lemma digit_not_space: "is_digit c \<Longrightarrow> \<not> py_isspace c"
  by (auto simp: is_digit_def py_isspace_def)

lemma digit_lower: "is_digit c \<Longrightarrow> lower_cp c = c"
  by (auto simp: is_digit_def lower_cp_def)

lemma takeWhile_digits:
  "list_all is_digit ds \<Longrightarrow> \<not> is_digit x \<Longrightarrow> takeWhile is_digit (ds @ x # t) = ds"
  by (simp add: list_all_iff takeWhile_append2)

lemma dropWhile_digits:
  "list_all is_digit ds \<Longrightarrow> \<not> is_digit x \<Longrightarrow> dropWhile is_digit (ds @ x # t) = x # t"
  by (simp add: list_all_iff dropWhile_append2)

lemma takeWhile_all_digits: "list_all is_digit ds \<Longrightarrow> takeWhile is_digit ds = ds"
  by (simp add: list_all_iff)

lemma dropWhile_all_digits: "list_all is_digit ds \<Longrightarrow> dropWhile is_digit ds = []"
  by (simp add: list_all_iff)

lemma parse_decimal_text:
  assumes ip: "list_all is_digit ip" and fd: "list_all is_digit fd" and fd0: "fd \<noteq> []"
  shows "parse_decimal (ip @ 46 # fd)
         = Some (of_nat (nat_of_digits (ip @ fd)) / 10 ^ length fd)"
proof -
  have n46: "\<not> is_digit 46" by (simp add: is_digit_def)
  have t1: "takeWhile is_digit (ip @ 46 # fd) = ip"
    using ip n46 by (rule takeWhile_digits)
  have d1: "dropWhile is_digit (ip @ 46 # fd) = 46 # fd"
    using ip n46 by (rule dropWhile_digits)
  have p: "pow10 (- int (length fd)) = 1 / 10 ^ length fd"
    using fd0 by (simp add: pow10_def)
  show ?thesis
    unfolding parse_decimal_def t1 d1
    by (simp add: takeWhile_all_digits [OF fd] dropWhile_all_digits [OF fd] parse_exponent_def p fd0)
qed

lemma py_float_text:
  assumes ip: "list_all is_digit ip" and ip0: "ip \<noteq> []"
    and fd: "list_all is_digit fd" and fd0: "fd \<noteq> []"
    and val: "of_nat (nat_of_digits (ip @ fd)) = \<bar>r\<bar> * 10 ^ length fd"
  shows "py_float ((if r < 0 then [45] else []) @ ip @ 46 # fd) = Some (PFloat r)"
proof -
  define s where "s = (if r < 0 then [45] else []) @ ip @ 46 # fd"
  have hd_ip: "is_digit (hd ip)" using ip ip0 by (cases ip) simp_all
  have last_fd: "is_digit (last fd)" using fd fd0 by (simp add: list_all_iff)
  have s0: "s \<noteq> []" by (simp add: s_def)
  have hd_s: "hd s = (if r < 0 then 45 else hd ip)" using ip0 by (simp add: s_def)
  have "\<not> py_isspace 45" by (simp add: py_isspace_def)
  then have "\<not> py_isspace (hd s)"
    using digit_not_space [OF hd_ip] by (simp add: hd_s)
  moreover have "last s = last fd" using fd0 by (simp add: s_def)
  ultimately have strip: "py_strip s = s"
    using s0 last_fd by (simp add: py_strip_id digit_not_space)
  have neg: "(case s of [] \<Rightarrow> False | c # _ \<Rightarrow> c = 45) = (r < 0)"
    using hd_ip ip0 by (cases ip) (auto simp: s_def is_digit_def)
  have body: "(case s of [] \<Rightarrow> [] | c # u \<Rightarrow> if c = 45 \<or> c = 43 then u else s) = ip @ 46 # fd"
    using hd_ip ip0 by (cases ip) (auto simp: s_def is_digit_def)
  have "hd (py_lower (ip @ 46 # fd)) = hd ip"
    using ip0 hd_ip by (cases ip) (simp_all add: py_lower_def digit_lower)
  with hd_ip have low: "py_lower (ip @ 46 # fd) \<noteq> [105, 110, 102]"
    "py_lower (ip @ 46 # fd) \<noteq> [105, 110, 102, 105, 110, 105, 116, 121]"
    "py_lower (ip @ 46 # fd) \<noteq> [110, 97, 110]"
    by (auto simp: is_digit_def)
  have dec: "parse_decimal (ip @ 46 # fd) = Some \<bar>r\<bar>"
    using parse_decimal_text [OF ip fd fd0] by (simp add: val)
  have "py_float s = Some (PFloat r)"
    unfolding py_float_def strip Let_def neg body
    using low dec by auto
  then show ?thesis by (simp add: s_def)
qed

lemma py_float_float_repr: "finite_decimal r \<Longrightarrow> py_float (float_repr r) = Some (PFloat r)"
  using float_repr_shape [of r] py_float_text [of _ _ r] by (auto simp del: append.simps)

lemma int_part_text:
  assumes "list_all is_digit ip" "ip \<noteq> []" "hd ip = 48 \<longrightarrow> ip = [48]" "\<not> is_digit x"
  shows "(case ip @ x # t of [] \<Rightarrow> [] | c # _ \<Rightarrow> if c = 48 then [48] else takeWhile is_digit (ip @ x # t)) = ip"
proof (cases ip)
  case Nil with assms(2) show ?thesis by simp
next
  case (Cons c cs)
  show ?thesis
  proof (cases "c = 48")
    case True
    with Cons assms(3) show ?thesis by simp
  next
    case False
    have "takeWhile is_digit (ip @ x # t) = ip"
      using assms(1,4) by (rule takeWhile_digits)
    with False Cons show ?thesis by simp
  qed
qed

text \<open>What may follow a number in the text written by the dump.\<close>

lemma match_number_int:
  assumes c: "c = 44 \<or> c = 10"
  shows "match_number (show_int i @ c # t) = Some (PInt i, c # t)"
proof -
  define m where "m = (if i < 0 then nat (- i) else nat i)"
  define ip where "ip = show_nat m"
  have s: "show_int i @ c # t = (if i < 0 then [45] else []) @ ip @ c # t"
    by (simp add: show_int_def ip_def m_def)
  have ip1: "list_all is_digit ip" and ip2: "ip \<noteq> []" and ip3: "hd ip = 48 \<longrightarrow> ip = [48]"
    by (auto simp: ip_def show_nat_digits show_nat_nonempty hd_show_nat)
  have nd: "\<not> is_digit c" using c by (auto simp: is_digit_def)
  have hd_ip: "is_digit (hd ip)" using ip1 ip2 by (cases ip) simp_all
  have neg: "(case (if i < 0 then [45] else []) @ ip @ c # t of [] \<Rightarrow> False | x # _ \<Rightarrow> x = 45) = (i < 0)"
    using hd_ip ip2 by (cases ip) (auto simp: is_digit_def)
  have s1: "(if i < 0 then tl ((if i < 0 then [45] else []) @ ip @ c # t)
             else (if i < 0 then [45] else []) @ ip @ c # t) = ip @ c # t"
    by simp
  have ipt: "(case ip @ c # t of [] \<Rightarrow> [] | x # _ \<Rightarrow> if x = 48 then [48] else takeWhile is_digit (ip @ c # t)) = ip"
    using ip1 ip2 ip3 nd by (rule int_part_text)
  have val: "(if i < 0 then - int (nat_of_digits ip) else int (nat_of_digits ip)) = i"
    by (simp add: ip_def nat_of_digits_show_nat m_def)
  show ?thesis
    unfolding s match_number_def Let_def neg s1 ipt
    using c ip2 val by auto
qed

lemma match_number_float:
  assumes c: "c = 44 \<or> c = 10" and r: "finite_decimal r"
  shows "match_number (float_repr r @ c # t) = Some (PFloat r, c # t)"
proof -
  from float_repr_shape [OF r] obtain ip fd where
    s: "float_repr r = (if r < 0 then [45] else []) @ ip @ 46 # fd"
    and ip1: "list_all is_digit ip" and ip2: "ip \<noteq> []" and ip3: "hd ip = 48 \<longrightarrow> ip = [48]"
    and fd1: "list_all is_digit fd" and fd2: "fd \<noteq> []"
    and val: "of_nat (nat_of_digits (ip @ fd)) = \<bar>r\<bar> * 10 ^ length fd"
    by blast
  have nd: "\<not> is_digit c" using c by (auto simp: is_digit_def)
  have n46: "\<not> is_digit 46" by (simp add: is_digit_def)
  have hd_ip: "is_digit (hd ip)" using ip1 ip2 by (cases ip) simp_all
  define u where "u = fd @ c # t"
  have whole: "float_repr r @ c # t = (if r < 0 then [45] else []) @ ip @ 46 # u"
    by (simp add: s u_def)
  have neg: "(case (if r < 0 then [45] else []) @ ip @ 46 # u of [] \<Rightarrow> False | x # _ \<Rightarrow> x = 45) = (r < 0)"
    using hd_ip ip2 by (cases ip) (auto simp: is_digit_def)
  have s1: "(if r < 0 then tl ((if r < 0 then [45] else []) @ ip @ 46 # u)
             else (if r < 0 then [45] else []) @ ip @ 46 # u) = ip @ 46 # u"
    by simp
  have ipt: "(case ip @ 46 # u of [] \<Rightarrow> [] | x # _ \<Rightarrow> if x = 48 then [48] else takeWhile is_digit (ip @ 46 # u)) = ip"
    using ip1 ip2 ip3 n46 by (rule int_part_text)
  have tw: "takeWhile is_digit u = fd" unfolding u_def using fd1 nd by (rule takeWhile_digits)
  have du: "drop (length fd) u = c # t" by (simp add: u_def)
  have fl: "py_float ((if r < 0 then [45] else []) @ ip @ 46 # fd) = Some (PFloat r)"
    using ip1 ip2 fd1 fd2 val by (rule py_float_text)
  have "match_number ((if r < 0 then [45] else []) @ ip @ 46 # u) = Some (PFloat r, c # t)"
    unfolding match_number_def Let_def neg s1 ipt
    using c ip2 fd2 fl by (auto simp: tw du)
  then show ?thesis by (simp only: whole)
qed


section \<open>Reading back what the dump wrote\<close>


lemma parse_value_number:
  assumes "x = 45 \<or> is_digit x" and "match_number (x # s) = Some (v, r)"
  shows "parse_value (Suc n) (x # s) = Inr (JNum v, r)"
  using assms by (auto simp: is_digit_def)

lemma hd_show_int: "\<exists>x s. show_int i = x # s \<and> (x = 45 \<or> is_digit x)"
proof (cases "i < 0")
  case True then show ?thesis by (simp add: show_int_def)
next
  case False
  obtain x s where xs: "show_nat (nat i) = x # s"
    using show_nat_nonempty [of "nat i"] by (cases "show_nat (nat i)") simp_all
  with show_nat_digits [of "nat i"] have "is_digit x" by simp
  with xs False show ?thesis by (simp add: show_int_def)
qed

lemma hd_float_repr:
  assumes "finite_decimal r"
  shows "\<exists>x s. float_repr r = x # s \<and> (x = 45 \<or> is_digit x)"
proof -
  from float_repr_shape [OF assms] obtain ip fd where
    s: "float_repr r = (if r < 0 then [45] else []) @ ip @ 46 # fd"
    and ip1: "list_all is_digit ip" and ip2: "ip \<noteq> []"
    by blast
  from ip1 ip2 obtain x ip' where "ip = x # ip'" "is_digit x" by (cases ip) simp_all
  with s show ?thesis by (cases "r < 0") simp_all
qed

lemma parse_value_num:
  assumes c: "c = 44 \<or> c = 10" and v: "decimal_num v"
  shows "parse_value (Suc n) (json_num v @ c # t) = Inr (JNum v, c # t)"
proof (cases v)
  case (PInt i)
  from hd_show_int [of i] obtain x s where xs: "show_int i = x # s" "x = 45 \<or> is_digit x"
    by blast
  have "match_number (x # s @ c # t) = Some (PInt i, c # t)"
    using match_number_int [OF c, of i t] xs by simp
  with xs PInt show ?thesis by (simp add: parse_value_number del: parse_value.simps)
next
  case (PFloat r)
  with v have fr: "finite_decimal r" by simp
  from hd_float_repr [OF fr] obtain x s where xs: "float_repr r = x # s" "x = 45 \<or> is_digit x"
    by blast
  have "match_number (x # s @ c # t) = Some (PFloat r, c # t)"
    using match_number_float [OF c fr, of t] xs by simp
  with xs PFloat show ?thesis by (simp add: parse_value_number del: parse_value.simps)
next
  case PInf
  then show ?thesis by (simp add: match_number_def is_digit_def)
next
  case NInf
  then show ?thesis by (simp add: match_number_def is_digit_def)
next
  case NaN
  then show ?thesis by (simp add: match_number_def is_digit_def)
qed

lemma skip_ws_json_num:
  assumes "decimal_num v"
  shows "skip_ws (json_num v @ s) = json_num v @ s"
proof -
  have "\<exists>x u. json_num v = x # u \<and> \<not> is_ws x"
  proof (cases v)
    case (PInt i)
    with hd_show_int [of i] show ?thesis by (auto simp: is_ws_def is_digit_def)
  next
    case (PFloat r)
    with assms hd_float_repr [of r] show ?thesis by (auto simp: is_ws_def is_digit_def)
  qed (simp_all add: is_ws_def)
  then show ?thesis by (auto simp: skip_ws_def)
qed

lemma hex_val_hex_digit: "d < 16 \<Longrightarrow> hex_val (hex_digit d) = Some d"
  by (auto simp: hex_val_def hex_digit_def)

lemma hex4_escape: "c < 32 \<Longrightarrow> hex4 [48, 48, hex_digit (c div 16), hex_digit (c mod 16)] = Some c"
proof -
  assume c: "c < 32"
  then have "c div 16 < 16" by simp
  then have a: "hex_val (hex_digit (c div 16)) = Some (c div 16)" by (rule hex_val_hex_digit)
  have b: "hex_val (hex_digit (c mod 16)) = Some (c mod 16)" by (rule hex_val_hex_digit) simp
  have z: "hex_val 48 = Some 0" by (simp add: hex_val_def)
  show ?thesis by (simp add: hex4_def a b z)
qed

lemma scanstring_escape_char:
  "scanstring acc (escape_char c @ rest) = scanstring (acc @ [c]) rest"
proof (cases "c < 32 \<and> c \<notin> {8, 9, 10, 12, 13}")
  case True
  then have e: "escape_char c = [92, 117, 48, 48, hex_digit (c div 16), hex_digit (c mod 16)]"
    by (auto simp: escape_char_def)
  from True have h: "hex4 [48, 48, hex_digit (c div 16), hex_digit (c mod 16)] = Some c"
    by (simp add: hex4_escape)
  show ?thesis using True by (simp add: e h)
next
  case False
  then show ?thesis by (auto simp: escape_char_def)
qed

lemma scanstring_escape:
  "scanstring acc (concat (map escape_char k) @ 34 # t) = Inr (acc @ k, t)"
proof (induction k arbitrary: acc)
  case Nil then show ?case by simp
next
  case (Cons c k)
  have "scanstring acc (concat (map escape_char (c # k)) @ 34 # t)
        = scanstring acc (escape_char c @ (concat (map escape_char k) @ 34 # t))"
    by simp
  also have "\<dots> = scanstring (acc @ [c]) (concat (map escape_char k) @ 34 # t)"
    by (rule scanstring_escape_char)
  also have "\<dots> = Inr ((acc @ [c]) @ k, t)" by (rule Cons.IH)
  finally show ?case by simp
qed

lemma join_members:
  "t \<noteq> [] \<Longrightarrow> py_join [44, 10] (map json_member t) @ [10, 125] = [32, 32, 34] @ members_text t"
  by (induction t rule: members_text.induct) (simp_all add: json_member_def json_quote_def)

lemma json_dumps_members: "t \<noteq> [] \<Longrightarrow> json_dumps t = [123, 10, 32, 32, 34] @ members_text t"
  using join_members [of t] by (simp add: json_dumps_def)

lemma length_members_text: "length t \<le> length (members_text t)"
  by (induction t rule: members_text.induct) simp_all

lemma parse_members_text:
  "t \<noteq> [] \<Longrightarrow> length t \<le> n \<Longrightarrow> \<forall>kv \<in> set t. decimal_num (snd kv) \<Longrightarrow>
   parse_members (Suc n) acc (members_text t @ rest) = Inr (JObj (assign_all acc t), rest)"
proof (induction t arbitrary: n acc rule: members_text.induct)
  case 1
  then show ?case by simp
next
  case (2 kv)
  then obtain n' where n: "n = Suc n'" by (cases n) simp_all
  from 2 have dv: "decimal_num (snd kv)" by simp
  have sc: "scanstring [] (members_text [kv] @ rest)
            = Inr (fst kv, 58 # 32 # json_num (snd kv) @ 10 # 125 # rest)"
    using scanstring_escape [of "[]" "fst kv" "58 # 32 # json_num (snd kv) @ 10 # 125 # rest"]
    by simp
  have ws1: "skip_ws (58 # 32 # json_num (snd kv) @ 10 # 125 # rest)
             = 58 # 32 # json_num (snd kv) @ 10 # 125 # rest"
    by (simp add: skip_ws_def is_ws_def)
  have ws2: "skip_ws (32 # json_num (snd kv) @ 10 # 125 # rest)
             = json_num (snd kv) @ 10 # 125 # rest"
    using skip_ws_json_num [OF dv, of "10 # 125 # rest"] by (simp add: skip_ws_def is_ws_def)
  have pv: "parse_value n (json_num (snd kv) @ 10 # 125 # rest)
            = Inr (JNum (snd kv), 10 # 125 # rest)"
    unfolding n by (rule parse_value_num) (simp_all add: dv)
  have ws3: "skip_ws (10 # 125 # rest) = 125 # rest"
    by (simp add: skip_ws_def is_ws_def)
  show ?case
    by (simp add: sc ws1 ws2 pv ws3 assign_all_def del: members_text.simps)
next
  case (3 kv kv' more)
  then obtain n' where n: "n = Suc n'" and n': "length (kv' # more) \<le> n'" by (cases n) simp_all
  from 3 have dv: "decimal_num (snd kv)" by simp
  define z where "z = members_text (kv' # more) @ rest"
  have sc: "scanstring [] (members_text (kv # kv' # more) @ rest)
            = Inr (fst kv, 58 # 32 # json_num (snd kv) @ 44 # 10 # 32 # 32 # 34 # z)"
    using scanstring_escape [of "[]" "fst kv"
        "58 # 32 # json_num (snd kv) @ 44 # 10 # 32 # 32 # 34 # z"]
    by (simp add: z_def)
  have ws1: "skip_ws (58 # 32 # json_num (snd kv) @ 44 # 10 # 32 # 32 # 34 # z)
             = 58 # 32 # json_num (snd kv) @ 44 # 10 # 32 # 32 # 34 # z"
    by (simp add: skip_ws_def is_ws_def)
  have ws2: "skip_ws (32 # json_num (snd kv) @ 44 # 10 # 32 # 32 # 34 # z)
             = json_num (snd kv) @ 44 # 10 # 32 # 32 # 34 # z"
    using skip_ws_json_num [OF dv, of "44 # 10 # 32 # 32 # 34 # z"]
    by (simp add: skip_ws_def is_ws_def)
  have pv: "parse_value n (json_num (snd kv) @ 44 # 10 # 32 # 32 # 34 # z)
            = Inr (JNum (snd kv), 44 # 10 # 32 # 32 # 34 # z)"
    unfolding n by (rule parse_value_num) (simp_all add: dv)
  have ws3: "skip_ws (44 # 10 # 32 # 32 # 34 # z) = 44 # 10 # 32 # 32 # 34 # z"
    by (simp add: skip_ws_def is_ws_def)
  have ws4: "skip_ws (10 # 32 # 32 # 34 # z) = 34 # z"
    by (simp add: skip_ws_def is_ws_def)
  have ih: "parse_members n (AList.update (fst kv) (JNum (snd kv)) acc) z
            = Inr (JObj (assign_all (AList.update (fst kv) (JNum (snd kv)) acc) (kv' # more)), rest)"
    unfolding n z_def using 3 n' by (intro "3.IH") simp_all
  show ?case
    by (simp add: sc ws1 ws2 pv ws3 ws4 ih assign_all_def del: members_text.simps)
qed

lemma update_absent: "k \<notin> fst ` set al \<Longrightarrow> AList.update k v al = al @ [(k, v)]"
  by (induction al) auto

lemma assign_all_distinct:
  "distinct (map fst t) \<Longrightarrow> fst ` set acc \<inter> fst ` set t = {} \<Longrightarrow>
   assign_all acc t = acc @ map (\<lambda>(k, v). (k, JNum v)) t"
proof (induction t arbitrary: acc)
  case Nil then show ?case by (simp add: assign_all_def)
next
  case (Cons kv t)
  from Cons.prems have absent: "fst kv \<notin> fst ` set acc" by auto
  have "assign_all acc (kv # t) = assign_all (AList.update (fst kv) (JNum (snd kv)) acc) t"
    by (simp add: assign_all_def)
  also have "\<dots> = assign_all (acc @ [(fst kv, JNum (snd kv))]) t"
    using absent by (simp add: update_absent)
  also have "\<dots> = (acc @ [(fst kv, JNum (snd kv))]) @ map (\<lambda>(k, v). (k, JNum v)) t"
    using Cons.prems by (intro Cons.IH) auto
  finally show ?case by (simp add: case_prod_beta)
qed

lemma json_roundtrip:
  assumes d: "distinct (map fst t)" and v: "\<forall>kv \<in> set t. decimal_num (snd kv)"
  shows "json_loads (json_dumps t) = Inr (json_of_table t)"
proof (cases "t = []")
  case True
  then show ?thesis
    by (simp add: json_dumps_def json_loads_def skip_ws_def is_ws_def json_of_table_def)
next
  case False
  define m where "m = members_text t"
  define n where "n = length (json_dumps t) + length (json_dumps t)"
  have dump: "json_dumps t = 123 # 10 # 32 # 32 # 34 # m"
    using json_dumps_members [OF False] by (simp add: m_def)
  have "length t \<le> n"
    using length_members_text [of t] by (simp add: n_def dump m_def)
  with False v have pm: "parse_members (Suc n) [] (m @ []) = Inr (JObj (assign_all [] t), [])"
    unfolding m_def by (intro parse_members_text) simp_all
  have sw: "skip_ws (json_dumps t) = json_dumps t"
    by (simp add: dump skip_ws_def is_ws_def)
  have ws2: "skip_ws (10 # 32 # 32 # 34 # m) = 34 # m"
    by (simp add: skip_ws_def is_ws_def)
  have "parse_value (Suc (Suc n)) (123 # 10 # 32 # 32 # 34 # m) = Inr (JObj (assign_all [] t), [])"
    using pm by (simp add: ws2 del: parse_members.simps)
  then have pv: "parse_value (Suc (Suc n)) (json_dumps t) = Inr (JObj (assign_all [] t), [])"
    by (simp only: dump)
  have "json_loads (json_dumps t) = Inr (JObj (assign_all [] t))"
    unfolding json_loads_def sw n_def [symmetric] pv by (simp add: skip_ws_def)
  then show ?thesis
    using assign_all_distinct [OF d, of "[]"] by (simp add: json_of_table_def)
qed


section \<open>The scanner does not run out of its bound\<close>


lemma scanstring_shorter: "scanstring acc s = Inr (k, r) \<Longrightarrow> length r < length s"
proof (induction s arbitrary: acc rule: length_induct)
  case (1 xs)
  show ?case
  proof (cases xs)
    case Nil
    with "1.prems" show ?thesis by simp
  next
    case (Cons c cs)
    have aux: "length r < Suc (length cs)"
      if "scanstring acc' s' = Inr (k, r)" and "length s' \<le> length cs" for acc' s'
    proof -
      from that(2) Cons have "length s' < length xs" by simp
      with "1.IH" that(1) have "length r < length s'" by blast
      with that(2) show ?thesis by simp
    qed
    from "1.prems" show ?thesis
      unfolding Cons
      by (auto split: if_splits list.splits option.splits dest!: aux)
  qed
qed


lemma match_number_rest:
  assumes "match_number s = Some (v, r)"
  shows "\<exists>i j. 0 < i \<and> i \<le> length s \<and> r = drop j (drop i s)"
proof -
  define neg where "neg = (case s of [] \<Rightarrow> False | c # _ \<Rightarrow> c = 45)"
  define s1 where "s1 = (if neg then tl s else s)"
  define ip where "ip = (case s1 of [] \<Rightarrow> [] | c # _ \<Rightarrow> if c = 48 then [48] else takeWhile is_digit s1)"
  define r1 where "r1 = drop (length ip) s1"
  define fp where "fp = (case r1 of [] \<Rightarrow> []
      | c # t \<Rightarrow> if c = 46 \<and> takeWhile is_digit t \<noteq> [] then 46 # takeWhile is_digit t else [])"
  define r2 where "r2 = drop (length fp) r1"
  define ep where "ep = (case r2 of [] \<Rightarrow> []
      | c # t \<Rightarrow> if c = 101 \<or> c = 69 then
          (let sg = (case t of [] \<Rightarrow> [] | x # _ \<Rightarrow> if x = 45 \<or> x = 43 then [x] else []);
               ds = takeWhile is_digit (drop (length sg) t)
           in if ds = [] then [] else c # sg @ ds)
        else [])"
  define r3 where "r3 = drop (length ep) r2"
  have unf: "match_number s =
      (if ip = [] then None
       else if fp = [] \<and> ep = []
       then Some (PInt (if neg then - int (nat_of_digits ip) else int (nat_of_digits ip)), r3)
       else map_option (\<lambda>v. (v, r3)) (py_float ((if neg then [45] else []) @ ip @ fp @ ep)))"
    by (simp only: match_number_def Let_def r3_def ep_def r2_def fp_def r1_def ip_def s1_def neg_def)
  from assms have ip0: "ip \<noteq> []" and r: "r = r3"
    by (auto simp: unf split: if_splits)
  from ip0 have s10: "s1 \<noteq> []" by (auto simp: ip_def)
  have ipl: "length ip \<le> length s1"
    by (cases s1) (simp_all add: ip_def length_takeWhile_le)
  have r3: "r3 = drop (length ep + length fp) (drop (length ip) s1)"
    by (simp add: r3_def r2_def r1_def ac_simps)
  show ?thesis
  proof (cases neg)
    case False
    then have "s1 = s" by (simp add: s1_def)
    with r r3 ip0 ipl show ?thesis
      by (intro exI [of _ "length ip"] exI [of _ "length ep + length fp"]) simp
  next
    case True
    then obtain t where s: "s = 45 # t" and "s1 = t"
      by (auto simp: neg_def s1_def split: list.splits)
    with r r3 ipl show ?thesis
      by (intro exI [of _ "Suc (length ip)"] exI [of _ "length ep + length fp"]) simp
  qed
qed

lemma match_number_shorter: "match_number s = Some (v, r) \<Longrightarrow> length r < length s"
  by (drule match_number_rest) auto

lemma skip_ws_length: "length (skip_ws s) \<le> length s"
  by (simp add: skip_ws_def length_dropWhile_le)

lemma skip_ws_cons: "skip_ws s = d # u \<Longrightarrow> length u < length s"
  using skip_ws_length [of s] by simp



lemma parse_fuel:
  "(2 * length s < n \<longrightarrow>
      parse_value n s \<noteq> Inl Depth_exceeded
      \<and> (\<forall>v r. parse_value n s = Inr (v, r) \<longrightarrow> length r < length s))
   \<and> (2 * length s + 1 < n \<longrightarrow>
      parse_items n acc s \<noteq> Inl Depth_exceeded
      \<and> (\<forall>v r. parse_items n acc s = Inr (v, r) \<longrightarrow> length r < length s))
   \<and> (2 * length s < n \<longrightarrow>
      parse_members n acc' s \<noteq> Inl Depth_exceeded
      \<and> (\<forall>v r. parse_members n acc' s = Inr (v, r) \<longrightarrow> length r < length s))"
proof (induction n arbitrary: s acc acc')
  case 0
  show ?case by simp
next
  case (Suc n)
  have IHv: "parse_value n z \<noteq> Inl Depth_exceeded
             \<and> (\<forall>v r. parse_value n z = Inr (v, r) \<longrightarrow> length r < length z)"
    if "2 * length z < n" for z
    using Suc.IH [of z] that by simp
  have IHi: "parse_items n a z \<noteq> Inl Depth_exceeded
             \<and> (\<forall>v r. parse_items n a z = Inr (v, r) \<longrightarrow> length r < length z)"
    if "2 * length z + 1 < n" for z a
    using Suc.IH [of z a] that by simp
  have IHm: "parse_members n a z \<noteq> Inl Depth_exceeded
             \<and> (\<forall>v r. parse_members n a z = Inr (v, r) \<longrightarrow> length r < length z)"
    if "2 * length z < n" for z a
    using Suc.IH [of z _ a] that by simp
  have V: "parse_value (Suc n) s \<noteq> Inl Depth_exceeded
           \<and> (\<forall>v r. parse_value (Suc n) s = Inr (v, r) \<longrightarrow> length r < length s)"
    if b: "2 * length s < Suc n"
  proof (cases s)
    case Nil
    then show ?thesis by simp
  next
    case (Cons c t)
    consider (str) "c = 34" | (obj) "c = 123" | (arr) "c = 91"
      | (other) "c \<noteq> 34" "c \<noteq> 123" "c \<noteq> 91" by blast
    then show ?thesis
    proof cases
      case str
      with Cons show ?thesis
        by (auto split: sum.splits dest: scanstring_shorter)
    next
      case obj
      show ?thesis
      proof (cases "skip_ws t")
        case Nil
        with Cons obj show ?thesis by simp
      next
        case ws: (Cons d u)
        then have lu: "length u < length t" by (rule skip_ws_cons)
        with b Cons have "2 * length u < n" by simp
        from IHm [OF this, of "[]"] lu Cons obj ws show ?thesis
          by auto
      qed
    next
      case arr
      show ?thesis
      proof (cases "skip_ws t")
        case Nil
        with Cons arr show ?thesis by simp
      next
        case ws: (Cons d u)
        then have lu: "length u < length t" by (rule skip_ws_cons)
        with b Cons have "2 * length (d # u) + 1 < n" by simp
        from IHi [OF this, of "[]"] lu Cons arr ws show ?thesis
          by auto
      qed
    next
      case other
      show ?thesis
      proof (cases "match_number s")
        case None
        with other Cons show ?thesis by (simp add: diff_less_Suc)
      next
        case (Some p)
        obtain x r where p: "p = (x, r)" by (cases p)
        with Some have "length r < length s" by (simp add: match_number_shorter)
        with other Cons Some p show ?thesis by (simp add: diff_less_Suc)
      qed
    qed
  qed
  have I: "parse_items (Suc n) acc s \<noteq> Inl Depth_exceeded
           \<and> (\<forall>v r. parse_items (Suc n) acc s = Inr (v, r) \<longrightarrow> length r < length s)"
    if b: "2 * length s + 1 < Suc n"
  proof -
    from b have "2 * length s < n" by simp
    note v = IHv [OF this]
    show ?thesis
    proof (cases "parse_value n s")
      case (Inl e)
      with v show ?thesis by simp
    next
      case (Inr p)
      obtain x r where p: "p = (x, r)" by (cases p)
      with Inr v have lr: "length r < length s" by simp
      show ?thesis
      proof (cases "skip_ws r")
        case Nil
        with Inr p show ?thesis by simp
      next
        case ws: (Cons d u)
        then have lu: "length u < length r" by (rule skip_ws_cons)
        have "length (skip_ws u) \<le> length u" by (rule skip_ws_length)
        with lu lr b have "2 * length (skip_ws u) + 1 < n" by simp
        from IHi [OF this, of "acc @ [x]"] \<open>length (skip_ws u) \<le> length u\<close> lu lr Inr p ws
        show ?thesis by auto
      qed
    qed
  qed
  have M: "parse_members (Suc n) acc' s \<noteq> Inl Depth_exceeded
           \<and> (\<forall>v r. parse_members (Suc n) acc' s = Inr (v, r) \<longrightarrow> length r < length s)"
    if b: "2 * length s < Suc n"
  proof (cases "scanstring [] s")
    case (Inl e)
    then show ?thesis by simp
  next
    case (Inr p)
    obtain key r where p: "p = (key, r)" by (cases p)
    with Inr have lr: "length r < length s" by (auto dest: scanstring_shorter)
    show ?thesis
    proof (cases "skip_ws r")
      case Nil
      with Inr p show ?thesis by simp
    next
      case ws: (Cons d u)
      then have lu: "length u < length r" by (rule skip_ws_cons)
      have lsu: "length (skip_ws u) \<le> length u" by (rule skip_ws_length)
      with lu lr b have "2 * length (skip_ws u) < n" by simp
      note v = IHv [OF this]
      show ?thesis
      proof (cases "parse_value n (skip_ws u)")
        case (Inl e)
        with v Inr p ws show ?thesis by simp
      next
        case pv: (Inr q)
        obtain x r2 where q: "q = (x, r2)" by (cases q)
        with pv v have lr2: "length r2 < length (skip_ws u)" by simp
        show ?thesis
        proof (cases "skip_ws r2")
          case Nil
          with Inr p ws pv q show ?thesis by simp
        next
          case ws2: (Cons y w)
          then have lw: "length w < length r2" by (rule skip_ws_cons)
          show ?thesis
          proof (cases "skip_ws w")
            case Nil
            with Inr p ws pv q ws2 lw lr2 lsu lu lr show ?thesis by auto
          next
            case ws3: (Cons g z)
            then have lz: "length z < length w" by (rule skip_ws_cons)
            with lw lr2 lsu lu lr b have "2 * length z < n" by simp
            from IHm [OF this, of "AList.update key x acc'"] lz lw lr2 lsu lu lr
              Inr p ws pv q ws2 ws3
            show ?thesis by auto
          qed
        qed
      qed
    qed
  qed
  from V I M show ?case by blast
qed

lemma json_loads_bound:
  "parse_value (Suc (Suc (length s + length s))) (skip_ws s) \<noteq> Inl Depth_exceeded"
proof -
  have "2 * length (skip_ws s) < Suc (Suc (length s + length s))"
    using skip_ws_length [of s] by simp
  with parse_fuel [of "skip_ws s" "Suc (Suc (length s + length s))"] show ?thesis
    by blast
qed

section \<open>The snapshot store and the loader\<close>

lemmas json_read_defs = json_loads_def skip_ws_def is_ws_def match_number_def hex4_def hex_val_def

lemmas json_write_defs = json_dumps_def json_member_def json_quote_def escape_char_def
  hex_digit_def show_int_def show_nat.simps

lemma fallback_distinct: "distinct (map fst fallback)"
  by (simp add: fallback_def)

lemma fallback_decimal: "\<forall>kv \<in> set fallback. decimal_num (snd kv)"
  by (simp add: fallback_def)

lemma loads_dumps_fallback: "json_loads (json_dumps fallback) = Inr (json_of_table fallback)"
  using fallback_distinct fallback_decimal by (rule json_roundtrip)

lemma truthy_table: "t \<noteq> [] \<Longrightarrow> truthy (json_of_table t)"
  by (simp add: json_of_table_def)

text \<open>The text of the defaults in the snapshot: the Cyrillic names stand there as they are.\<close>

lemma json_dumps_fallback:
  "json_dumps fallback =
    [123, 10, 32, 32, 34, 1041, 1077, 1083, 1075, 1086, 1088, 1086, 1076,
     1089, 1082, 1072, 1103, 32, 1086, 1073, 1083, 1072, 1089, 1090, 1100,
     34, 58, 32, 55, 53, 56, 51, 52, 44, 10, 32, 32, 34, 1042, 1083, 1072,
     1076, 1080, 1084, 1080, 1088, 1089, 1082, 1072, 1103, 32, 1086, 1073,
     1083, 1072, 1089, 1090, 1100, 34, 58, 32, 55, 51, 50, 52, 48, 44, 10,
     32, 32, 34, 1053, 1080, 1078, 1077, 1075, 1086, 1088, 1086, 1076, 1089,
     1082, 1072, 1103, 32, 1086, 1073, 1083, 1072, 1089, 1090, 1100, 34, 58,
     32, 56, 49, 50, 51, 48, 44, 10, 32, 32, 34, 1052, 1086, 1089, 1082,
     1074, 1072, 34, 58, 32, 49, 55, 56, 53, 57, 54, 44, 10, 32, 32, 34,
     1052, 1086, 1089, 1082, 1086, 1074, 1089, 1082, 1072, 1103, 32, 1086,
     1073, 1083, 1072, 1089, 1090, 1100, 34, 58, 32, 49, 49, 53, 56, 49, 49,
     10, 125]"
  by (simp add: fallback_def json_write_defs)

text \<open>
  C3. With no spreadsheet and no snapshot, \<open>load_regions_data\<close> returns the five
  defaults and leaves them in the snapshot, written once by \<open>save_local\<close>. Called again
  on the files it left, it returns the same mapping, read from the snapshot, and leaves
  the files as they are: nothing is written.
\<close>

theorem cold_start_defaults:
  "load_regions_data \<lparr>excel = None, snapshot = None, writes = ws\<rparr> =
     Inr (json_of_table fallback,
          \<lparr>excel = None, snapshot = Some (json_dumps fallback),
           writes = ws @ [json_dumps fallback]\<rparr>)
   \<and> load_regions_data \<lparr>excel = None, snapshot = Some (json_dumps fallback),
                          writes = ws @ [json_dumps fallback]\<rparr> =
     Inr (json_of_table fallback,
          \<lparr>excel = None, snapshot = Some (json_dumps fallback),
           writes = ws @ [json_dumps fallback]\<rparr>)
   \<and> length fallback = 5 \<and> distinct (map fst fallback)"
proof (intro conjI)
  show "load_regions_data \<lparr>excel = None, snapshot = None, writes = ws\<rparr> =
     Inr (json_of_table fallback,
          \<lparr>excel = None, snapshot = Some (json_dumps fallback),
           writes = ws @ [json_dumps fallback]\<rparr>)"
    by (simp add: load_regions_data_def excel_tier_def try_load_from_local_def save_local_def)
  have "fallback \<noteq> []" by (simp add: fallback_def)
  then have "truthy (json_of_table fallback)" by (rule truthy_table)
  then show "load_regions_data \<lparr>excel = None, snapshot = Some (json_dumps fallback),
                          writes = ws @ [json_dumps fallback]\<rparr> =
     Inr (json_of_table fallback,
          \<lparr>excel = None, snapshot = Some (json_dumps fallback),
           writes = ws @ [json_dumps fallback]\<rparr>)"
    by (simp add: load_regions_data_def excel_tier_def try_load_from_local_def
        loads_dumps_fallback)
  show "length fallback = 5" by (simp add: fallback_def)
  show "distinct (map fst fallback)" by (rule fallback_distinct)
qed

theorem cold_start_defaults_witness:
  "load_regions_data \<lparr>excel = None, snapshot = None, writes = []\<rparr> =
     Inr (json_of_table fallback,
          \<lparr>excel = None, snapshot = Some (json_dumps fallback), writes = [json_dumps fallback]\<rparr>)
   \<and> load_regions_data
        \<lparr>excel = None, snapshot = Some (json_dumps fallback), writes = [json_dumps fallback]\<rparr> =
     Inr (json_of_table fallback,
          \<lparr>excel = None, snapshot = Some (json_dumps fallback), writes = [json_dumps fallback]\<rparr>)"
  using cold_start_defaults [of "[]"] by simp








text \<open>
  C6 and the code. An absent snapshot gives \<open>None\<close>, as the specification says. A
  snapshot with malformed content does not: \<open>json.load\<close> raises, nothing in
  \<open>try_load_from_local\<close> or in \<open>load_regions_data\<close> catches it, and the loader fails
  instead of going on to the defaults. An empty file and a file cut off behind the
  opening brace are such contents.
\<close>

theorem malformed_snapshot_raises:
  "try_load_from_local \<lparr>excel = xl, snapshot = None, writes = ws\<rparr> = Inr JNull
   \<and> try_load_from_local \<lparr>excel = None, snapshot = Some [], writes = []\<rparr> = Inl JSONDecodeError
   \<and> load_regions_data \<lparr>excel = None, snapshot = Some [], writes = []\<rparr> = Inl JSONDecodeError
   \<and> try_load_from_local \<lparr>excel = None, snapshot = Some [123, 10], writes = []\<rparr>
       = Inl JSONDecodeError
   \<and> load_regions_data \<lparr>excel = None, snapshot = Some [123, 10], writes = []\<rparr>
       = Inl JSONDecodeError"
  by (simp add: load_regions_data_def excel_tier_def try_load_from_local_def json_read_defs)

lemma json_dumps_defaults: "json_dumps fallback = defaults_text"
  by (simp add: fallback_def defaults_text_def json_write_defs)

lemma json_of_table_defaults: "json_of_table fallback = defaults_dict"
  by (simp add: fallback_def defaults_dict_def json_of_table_def)

lemma loads_defaults_text: "json_loads defaults_text = Inr defaults_dict"
  using loads_dumps_fallback by (simp add: json_dumps_defaults json_of_table_defaults)

text \<open>
  C10. When the spreadsheet tier yields nothing and the snapshot holds an empty mapping,
  the loader does not return it: it returns the five defaults and overwrites the snapshot
  with them, so that the file then holds the text of the defaults, which reads back as
  the defaults. The text \<open>{}\<close> is such a snapshot, and an absent or unreadable
  spreadsheet is such a tier.
\<close>

theorem empty_snapshot_defaults:
  "(excel_tier xl = None \<and> json_loads text = Inr (JObj []) \<longrightarrow>
      load_regions_data \<lparr>excel = xl, snapshot = Some text, writes = ws\<rparr> =
        Inr (defaults_dict,
             \<lparr>excel = xl, snapshot = Some defaults_text, writes = ws @ [defaults_text]\<rparr>))
   \<and> load_regions_data \<lparr>excel = None, snapshot = Some [123, 125], writes = ws\<rparr> =
        Inr (defaults_dict,
             \<lparr>excel = None, snapshot = Some defaults_text, writes = ws @ [defaults_text]\<rparr>)
   \<and> load_regions_data \<lparr>excel = Some Unreadable, snapshot = Some [123, 125], writes = ws\<rparr> =
        Inr (defaults_dict,
             \<lparr>excel = Some Unreadable, snapshot = Some defaults_text,
              writes = ws @ [defaults_text]\<rparr>)
   \<and> try_load_from_local \<lparr>excel = xl, snapshot = Some defaults_text, writes = ws'\<rparr>
        = Inr defaults_dict
   \<and> json_loads [123, 125] = Inr (JObj [])
   \<and> defaults_dict \<noteq> JObj []"
proof -
  have e: "json_loads [123, 125] = Inr (JObj [])"
    by (simp add: json_read_defs)
  have "load_regions_data \<lparr>excel = f, snapshot = Some old, writes = ws\<rparr> =
        Inr (defaults_dict,
             \<lparr>excel = f, snapshot = Some defaults_text, writes = ws @ [defaults_text]\<rparr>)"
    if "excel_tier f = None" and "json_loads old = Inr (JObj [])" for f old
    using that
    by (simp add: load_regions_data_def try_load_from_local_def save_local_def
        json_dumps_defaults json_of_table_defaults)
  note g = this
  have n: "excel_tier None = None" and u: "excel_tier (Some Unreadable) = None"
    by (simp_all add: excel_tier_def excel_parse_def)
  show ?thesis
    using g [of xl "text"] g [OF n e] g [OF u e] e
    by (simp add: try_load_from_local_def loads_defaults_text defaults_dict_def)
qed

theorem empty_snapshot_defaults_witness:
  "excel_tier None = None
   \<and> json_loads [123, 125] = Inr (JObj [])
   \<and> load_regions_data \<lparr>excel = None, snapshot = Some [123, 125], writes = []\<rparr> =
        Inr (defaults_dict,
             \<lparr>excel = None, snapshot = Some defaults_text, writes = [defaults_text]\<rparr>)"
  using empty_snapshot_defaults [of None "[123, 125]" "[]"]
  by (simp add: excel_tier_def)

end
